theory Spec2Isabelle
  imports Main
begin

section \<open>Python text primitives used by the access node\<close>

text \<open>
  Text is modelled as \<open>string\<close>: a list of 8-bit characters, one per code point below 256.
  An HTTP header value reaches the code decoded as Latin-1, so this is exact for the
  Authorization header; other text (the body) is restricted to this range.
\<close>

definition is_space :: "char \<Rightarrow> bool" where
  \<comment> \<open>\<open>str.isspace\<close> on a code point below 256\<close>
  "is_space c = (let n = (of_char c :: nat) in
     (9 \<le> n \<and> n \<le> 13) \<or> (28 \<le> n \<and> n \<le> 32) \<or> n = 133 \<or> n = 160)"

fun words_acc :: "string \<Rightarrow> string \<Rightarrow> string list" where
  \<comment> \<open>the first argument is the current token, reversed\<close>
  "words_acc cur [] = (if cur = [] then [] else [rev cur])"
| "words_acc cur (c # cs) =
     (if is_space c
      then (if cur = [] then words_acc [] cs else rev cur # words_acc [] cs)
      else words_acc (c # cur) cs)"

definition split_ws :: "string \<Rightarrow> string list" where
  \<comment> \<open>\<open>s.split()\<close>: maximal runs of non-whitespace\<close>
  "split_ws s = words_acc [] s"

definition strip_ws :: "string \<Rightarrow> string" where
  \<comment> \<open>\<open>s.strip()\<close>\<close>
  "strip_ws s = rev (dropWhile is_space (rev (dropWhile is_space s)))"

definition is_digit :: "char \<Rightarrow> bool" where
  "is_digit c = (let n = (of_char c :: nat) in 48 \<le> n \<and> n \<le> 57)"

definition digit_val :: "char \<Rightarrow> nat" where
  "digit_val c = (of_char c :: nat) - 48"

fun parse_digits :: "bool \<Rightarrow> nat \<Rightarrow> string \<Rightarrow> nat option" where
  \<comment> \<open>decimal digits, single underscores allowed between digits; the flag tells that
      the previous character was a digit\<close>
  "parse_digits prev acc [] = (if prev then Some acc else None)"
| "parse_digits prev acc (c # cs) =
     (if is_digit c then parse_digits True (10 * acc + digit_val c) cs
      else if c = CHR ''_'' \<and> prev then parse_digits False acc cs
      else None)"

definition py_int :: "string \<Rightarrow> int option" where
  \<comment> \<open>\<open>int(s)\<close>; \<open>None\<close> stands for \<open>ValueError\<close>\<close>
  "py_int s = (case strip_ws s of
       [] \<Rightarrow> None
     | c # cs \<Rightarrow>
         if c = CHR ''-'' then map_option (\<lambda>n. - int n) (parse_digits False 0 cs)
         else if c = CHR ''+'' then map_option int (parse_digits False 0 cs)
         else map_option int (parse_digits False 0 (c # cs)))"

definition startswith :: "string \<Rightarrow> string \<Rightarrow> bool" where
  "startswith s p = (take (length p) s = p)"

section \<open>Quantum Signature Handshake: header parsing\<close>

datatype auth_failure =
    MissingHeader
  | InvalidHeaderFormat
  | UnsupportedVersion string
  | InvalidTimestampFormat
  | InvalidOriginator
  | RateLimitExceeded
  | TimestampOutOfRange
  | NonceUsedOrInvalid
  | SecretNotConfigured
  | SecretRetrievalFailed
  | SignatureMismatch

fun detail :: "auth_failure \<Rightarrow> string" where
  \<comment> \<open>the message each \<open>QuantumAuthError\<close> carries\<close>
  "detail MissingHeader = ''Missing Authorization header''"
| "detail InvalidHeaderFormat = ''Invalid Authorization header format''"
| "detail (UnsupportedVersion v) = ''Unsupported version: '' @ v"
| "detail InvalidTimestampFormat = ''Invalid timestamp format''"
| "detail InvalidOriginator = ''Invalid or missing originator in payload''"
| "detail RateLimitExceeded = ''Rate limit exceeded''"
| "detail TimestampOutOfRange = ''Timestamp outside acceptable range''"
| "detail NonceUsedOrInvalid = ''Nonce already used or invalid''"
| "detail SecretNotConfigured = ''Quantum secret not configured''"
| "detail SecretRetrievalFailed = ''Secret retrieval failed''"
| "detail SignatureMismatch = ''Signature verification failed''"

definition parse_auth_header ::
  "string option \<Rightarrow> auth_failure + (string \<times> int \<times> string \<times> string)" where
  \<comment> \<open>\<open>QuantumAuthManager._parse_auth_header\<close>; the result is
      (signature, timestamp, nonce, version)\<close>
  "parse_auth_header auth_header =
     (case auth_header of
        None \<Rightarrow> Inl MissingHeader
      | Some hdr \<Rightarrow>
          if hdr = [] then Inl MissingHeader
          else (case split_ws hdr of
              q # version # signature # timestamp_str # rest \<Rightarrow>
                if q \<noteq> ''Quantum'' then Inl InvalidHeaderFormat
                else
                  let nonce = (case rest of [] \<Rightarrow> [] | n # _ \<Rightarrow> n) in
                  if version \<noteq> ''v1'' \<and> version \<noteq> ''v2'' then Inl (UnsupportedVersion version)
                  else (case py_int timestamp_str of
                      None \<Rightarrow> Inl InvalidTimestampFormat
                    | Some timestamp \<Rightarrow> Inr (signature, timestamp, nonce, version))
            | _ \<Rightarrow> Inl InvalidHeaderFormat))"

definition digit_char :: "nat \<Rightarrow> char" where
  "digit_char n = ''0123456789'' ! (n mod 10)"

fun str_of_nat :: "nat \<Rightarrow> string" where
  \<comment> \<open>decimal digits of a natural number\<close>
  "str_of_nat n =
     (if n < 10 then [digit_char n]
      else str_of_nat (n div 10) @ [digit_char (n mod 10)])"

declare str_of_nat.simps [simp del]

definition str_of_int :: "int \<Rightarrow> string" where
  \<comment> \<open>\<open>str(n)\<close>, as an f-string renders an integer\<close>
  "str_of_int i = (if i < 0 then CHR ''-'' # str_of_nat (nat (- i)) else str_of_nat (nat i))"

definition utf8_char :: "char \<Rightarrow> string" where
  "utf8_char c = (let n = (of_char c :: nat) in
     if n < 128 then [c] else [char_of (192 + n div 64), char_of (128 + n mod 64)])"

definition utf8_encode :: "string \<Rightarrow> string" where
  \<comment> \<open>\<open>s.encode('utf-8')\<close> for code points below 256\<close>
  "utf8_encode s = concat (map utf8_char s)"

definition nl :: string where
  "nl = [CHR 0x0A]"

section \<open>Collaborators of the authentication manager\<close>

text \<open>
  JSON values as \<open>json.loads\<close> returns them (numbers restricted to integers).
\<close>

datatype json =
    JNull
  | JBool bool
  | JNum int
  | JStr string
  | JArr "json list"
  | JObj "(string \<times> json) list"

fun truthy :: "json \<Rightarrow> bool" where
  "truthy JNull = False"
| "truthy (JBool b) = b"
| "truthy (JNum n) = (n \<noteq> 0)"
| "truthy (JStr s) = (s \<noteq> [])"
| "truthy (JArr xs) = (xs \<noteq> [])"
| "truthy (JObj kvs) = (kvs \<noteq> [])"

definition dict_get :: "(string \<times> json) list \<Rightarrow> string \<Rightarrow> json option" where
  \<comment> \<open>a repeated key keeps its last value, as in a Python dict built by the parser\<close>
  "dict_get kvs k = map_of (rev kvs) k"

text \<open>
  The library functions and the helpers of \<open>common.utils\<close> and \<open>common.crypto\<close>
  that the manager calls are parameters of the model: the HMAC, the base64 and SHA-256
  encoders, the JSON loader, and the secret cipher (\<open>None\<close> when it raises).
\<close>

record deps =
  hmac_sha256 :: "string \<Rightarrow> string \<Rightarrow> string"
  b64encode :: "string \<Rightarrow> string"
  compute_sha256 :: "string \<Rightarrow> string"
  safe_json_loads :: "string \<Rightarrow> json option"
  encrypt_secret :: "string \<Rightarrow> string option"
  decrypt_secret :: "string \<Rightarrow> string option"

record auth_config =
  max_clock_skew :: int
  nonce_ttl :: int
  per_originator :: int
  per_ip :: int
  key_version :: string
  secret_cache_ttl :: int
  quantum_secret :: string

definition default_config :: "string \<Rightarrow> auth_config" where
  \<comment> \<open>the defaults of \<open>QuantumAuthManager.__init__\<close>, for a given configured secret\<close>
  "default_config secret =
     \<lparr> max_clock_skew = 300, nonce_ttl = 600, per_originator = 60, per_ip = 100,
       key_version = ''v1'', secret_cache_ttl = 3600, quantum_secret = secret \<rparr>"

text \<open>
  The shared cache (Redis) and the durable nonce table. A cache entry is a value with an
  optional absolute expiry time, visible while the clock is before the expiry. Every
  round trip to the cache or to the database consumes one entry of a fault schedule:
  \<open>True\<close> makes the call raise. An empty schedule is a healthy dependency.
\<close>

datatype cval = CInt int | CStr string

record world =
  cache :: "string \<Rightarrow> (cval \<times> int option) option"
  cache_faults :: "bool list"
  nonce_table :: "(string \<times> string) list"
  db_faults :: "bool list"

datatype exn = AuthError auth_failure | OtherError

type_synonym 'a io = "world \<Rightarrow> (exn + 'a) \<times> world"

definition ret :: "'a \<Rightarrow> 'a io" where
  "ret x w = (Inr x, w)"

definition raise :: "exn \<Rightarrow> 'a io" where
  "raise e w = (Inl e, w)"

definition io_bind :: "'a io \<Rightarrow> ('a \<Rightarrow> 'b io) \<Rightarrow> 'b io" where
  "io_bind m f w = (case m w of (Inl e, w') \<Rightarrow> (Inl e, w') | (Inr x, w') \<Rightarrow> f x w')"

definition try_except :: "'a io \<Rightarrow> (exn \<Rightarrow> 'a io) \<Rightarrow> 'a io" where
  "try_except m h w = (case m w of (Inl e, w') \<Rightarrow> h e w' | (Inr x, w') \<Rightarrow> (Inr x, w'))"

definition cache_round_trip :: "unit io" where
  "cache_round_trip w =
     (case cache_faults w of
        [] \<Rightarrow> (Inr (), w)
      | f # fs \<Rightarrow> (if f then Inl OtherError else Inr (), w\<lparr>cache_faults := fs\<rparr>))"

definition db_round_trip :: "unit io" where
  "db_round_trip w =
     (case db_faults w of
        [] \<Rightarrow> (Inr (), w)
      | f # fs \<Rightarrow> (if f then Inl OtherError else Inr (), w\<lparr>db_faults := fs\<rparr>))"

definition live :: "int \<Rightarrow> cval \<times> int option \<Rightarrow> bool" where
  "live now e = (case snd e of None \<Rightarrow> True | Some t \<Rightarrow> now < t)"

definition cache_get :: "int \<Rightarrow> world \<Rightarrow> string \<Rightarrow> (cval \<times> int option) option" where
  "cache_get now w k =
     (case cache w k of None \<Rightarrow> None | Some e \<Rightarrow> if live now e then Some e else None)"

definition get_redis_client :: "unit io" where
  "get_redis_client = cache_round_trip"

definition redis_exists :: "int \<Rightarrow> string \<Rightarrow> bool io" where
  "redis_exists now k =
     io_bind cache_round_trip (\<lambda>_ w. (Inr (cache_get now w k \<noteq> None), w))"

definition redis_get :: "int \<Rightarrow> string \<Rightarrow> cval option io" where
  "redis_get now k =
     io_bind cache_round_trip (\<lambda>_ w. (Inr (map_option fst (cache_get now w k)), w))"

definition redis_setex :: "int \<Rightarrow> string \<Rightarrow> int \<Rightarrow> cval \<Rightarrow> unit io" where
  \<comment> \<open>the cache refuses an expiry that is not positive\<close>
  "redis_setex now k ttl v =
     io_bind cache_round_trip (\<lambda>_ w.
       if ttl \<le> 0 then (Inl OtherError, w)
       else (Inr (), w\<lparr>cache := (cache w)(k \<mapsto> (v, Some (now + ttl)))\<rparr>))"

definition redis_incr :: "int \<Rightarrow> string \<Rightarrow> int io" where
  \<comment> \<open>a missing key counts from zero; only counters are incremented, a text value raises\<close>
  "redis_incr now k =
     io_bind cache_round_trip (\<lambda>_ w.
       case cache_get now w k of
         None \<Rightarrow> (Inr 1, w\<lparr>cache := (cache w)(k \<mapsto> (CInt 1, None))\<rparr>)
       | Some (CInt n, e) \<Rightarrow> (Inr (n + 1), w\<lparr>cache := (cache w)(k \<mapsto> (CInt (n + 1), e))\<rparr>)
       | Some (CStr s, e) \<Rightarrow> (Inl OtherError, w))"

definition redis_expire :: "int \<Rightarrow> string \<Rightarrow> int \<Rightarrow> bool io" where
  "redis_expire now k secs =
     io_bind cache_round_trip (\<lambda>_ w.
       case cache_get now w k of
         None \<Rightarrow> (Inr False, w)
       | Some (v, e) \<Rightarrow> (Inr True, w\<lparr>cache := (cache w)(k \<mapsto> (v, Some (now + secs)))\<rparr>))"

definition check_nonce_exists :: "string \<Rightarrow> string \<Rightarrow> bool io" where
  \<comment> \<open>Modelled from the spec: \<open>common.db.check_nonce_exists\<close> is not in the sources;
      a NonceRecord of the durable table is keyed by caller and nonce.\<close>
  "check_nonce_exists nonce originator =
     io_bind db_round_trip (\<lambda>_ w. (Inr ((originator, nonce) \<in> set (nonce_table w)), w))"

definition record_nonce :: "string \<Rightarrow> string \<Rightarrow> unit io" where
  \<comment> \<open>Modelled from the spec: \<open>common.db.record_nonce\<close> is not in the sources.\<close>
  "record_nonce nonce originator =
     io_bind db_round_trip (\<lambda>_ w.
       (Inr (), w\<lparr>nonce_table := (originator, nonce) # nonce_table w\<rparr>))"

section \<open>QuantumAuthManager\<close>

text \<open>
  One call of \<open>verify_signature\<close> reads the clock once (\<open>now\<close>, in seconds). The audit
  record written after each attempt is left out: its failure is logged and dropped, and
  nothing of the verification reads it back.
\<close>

definition cval_text :: "cval \<Rightarrow> string" where
  "cval_text v = (case v of CInt n \<Rightarrow> str_of_int n | CStr s \<Rightarrow> s)"

definition secret_key :: "string \<Rightarrow> string \<Rightarrow> string" where
  "secret_key originator version = ''quantum_secret:'' @ originator @ '':'' @ version"

definition secret_fallback :: "deps \<Rightarrow> auth_config \<Rightarrow> int \<Rightarrow> string \<Rightarrow> string io" where
  \<comment> \<open>the configured secret, cached encrypted on the way out\<close>
  "secret_fallback d cfg now cache_key =
     (let secret = utf8_encode (quantum_secret cfg) in
      if secret = [] then raise (AuthError SecretNotConfigured)
      else (case encrypt_secret d secret of
          None \<Rightarrow> raise OtherError
        | Some encrypted \<Rightarrow>
            io_bind (redis_setex now cache_key (secret_cache_ttl cfg) (CStr encrypted))
              (\<lambda>_. ret secret)))"

definition get_secret_body :: "deps \<Rightarrow> auth_config \<Rightarrow> int \<Rightarrow> string \<Rightarrow> string \<Rightarrow> string io" where
  "get_secret_body d cfg now originator version =
     io_bind get_redis_client (\<lambda>_.
     io_bind (redis_get now (secret_key originator version)) (\<lambda>cached.
       case cached of
         None \<Rightarrow> secret_fallback d cfg now (secret_key originator version)
       | Some v \<Rightarrow>
           if cval_text v = [] then secret_fallback d cfg now (secret_key originator version)
           else (case decrypt_secret d (cval_text v) of
               None \<Rightarrow> raise OtherError
             | Some s \<Rightarrow> ret s)))"

definition get_secret :: "deps \<Rightarrow> auth_config \<Rightarrow> int \<Rightarrow> string \<Rightarrow> string \<Rightarrow> string io" where
  \<comment> \<open>\<open>_get_secret\<close>: every exception of the body becomes "Secret retrieval failed"\<close>
  "get_secret d cfg now originator version =
     try_except (get_secret_body d cfg now originator version)
       (\<lambda>e. raise (AuthError SecretRetrievalFailed))"

definition validate_timestamp :: "auth_config \<Rightarrow> int \<Rightarrow> int \<Rightarrow> bool" where
  "validate_timestamp cfg now timestamp = (\<bar>now - timestamp\<bar> \<le> max_clock_skew cfg)"

definition nonce_key :: "string \<Rightarrow> string \<Rightarrow> string" where
  "nonce_key originator nonce = ''quantum_nonce:'' @ originator @ '':'' @ nonce"

definition persist_nonce :: "string \<Rightarrow> string \<Rightarrow> unit io" where
  \<comment> \<open>\<open>_persist_nonce\<close>, scheduled as a task by the caller; the model runs it at once.
      Its failure is logged and dropped.\<close>
  "persist_nonce nonce originator =
     try_except (record_nonce nonce originator) (\<lambda>e. ret ())"

definition validate_nonce_body :: "auth_config \<Rightarrow> int \<Rightarrow> string \<Rightarrow> string \<Rightarrow> bool io" where
  "validate_nonce_body cfg now nonce originator =
     io_bind get_redis_client (\<lambda>_.
     io_bind (redis_exists now (nonce_key originator nonce)) (\<lambda>seen.
       if seen then ret False
       else io_bind (check_nonce_exists nonce originator) (\<lambda>recorded.
         if recorded then ret False
         else io_bind (redis_setex now (nonce_key originator nonce) (nonce_ttl cfg) (CStr ''1''))
           (\<lambda>_. io_bind (persist_nonce nonce originator) (\<lambda>_. ret True)))))"

definition validate_nonce :: "auth_config \<Rightarrow> int \<Rightarrow> string \<Rightarrow> string \<Rightarrow> bool io" where
  \<comment> \<open>\<open>_validate_nonce\<close>: any exception of the body answers \<open>False\<close>\<close>
  "validate_nonce cfg now nonce originator =
     try_except (validate_nonce_body cfg now nonce originator) (\<lambda>e. ret False)"

definition signing_string ::
  "deps \<Rightarrow> string \<Rightarrow> int \<Rightarrow> string \<Rightarrow> string \<Rightarrow> string \<Rightarrow> string \<Rightarrow> auth_failure + string" where
  \<comment> \<open>the two f-strings of \<open>_compute_signature\<close>\<close>
  "signing_string d payload timestamp nonce method path version =
     (if version = ''v1'' then
        Inr (method @ nl @ path @ nl @ str_of_int timestamp @ nl @ nonce @ nl @ payload)
      else if version = ''v2'' then
        (let payload_hash = compute_sha256 d (utf8_encode payload) in
         Inr (version @ nl @ method @ nl @ path @ nl @ str_of_int timestamp @ nl @ nonce @ nl
              @ payload_hash))
      else Inl (UnsupportedVersion version))"

definition compute_signature ::
  "deps \<Rightarrow> string \<Rightarrow> string \<Rightarrow> int \<Rightarrow> string \<Rightarrow> string \<Rightarrow> string \<Rightarrow> string
     \<Rightarrow> auth_failure + string" where
  \<comment> \<open>\<open>_compute_signature(secret, payload, timestamp, nonce, method, path, version)\<close>\<close>
  "compute_signature d secret payload timestamp nonce method path version =
     (case signing_string d payload timestamp nonce method path version of
        Inl f \<Rightarrow> Inl f
      | Inr s \<Rightarrow> Inr (b64encode d (hmac_sha256 d secret (utf8_encode s))))"

definition originator_key :: "string \<Rightarrow> string" where
  "originator_key originator = ''rate_limit:originator:'' @ originator"

definition ip_key :: "string \<Rightarrow> string" where
  "ip_key client_ip = ''rate_limit:ip:'' @ client_ip"

definition count_in_window :: "int \<Rightarrow> string \<Rightarrow> int io" where
  \<comment> \<open>\<open>incr\<close>, and \<open>expire(key, 60)\<close> when the counter was just created\<close>
  "count_in_window now k =
     io_bind (redis_incr now k) (\<lambda>n.
       if n = 1 then io_bind (redis_expire now k 60) (\<lambda>_. ret n) else ret n)"

definition check_rate_limit_body :: "auth_config \<Rightarrow> int \<Rightarrow> string \<Rightarrow> string \<Rightarrow> bool io" where
  "check_rate_limit_body cfg now originator client_ip =
     io_bind get_redis_client (\<lambda>_.
     io_bind (count_in_window now (originator_key originator)) (\<lambda>originator_count.
     io_bind (count_in_window now (ip_key client_ip)) (\<lambda>ip_count.
       ret (originator_count \<le> per_originator cfg \<and> ip_count \<le> per_ip cfg))))"

definition check_rate_limit :: "auth_config \<Rightarrow> int \<Rightarrow> string \<Rightarrow> string \<Rightarrow> bool io" where
  \<comment> \<open>\<open>_check_rate_limit\<close>: any exception of the body answers \<open>True\<close>\<close>
  "check_rate_limit cfg now originator client_ip =
     try_except (check_rate_limit_body cfg now originator client_ip) (\<lambda>e. ret True)"

record request =
  req_method :: string
  req_path :: string
  req_body :: string
  req_auth :: "string option"
  req_client :: "string option"

definition payload_of :: "request \<Rightarrow> string" where
  \<comment> \<open>\<open>body.decode('utf-8') if body else "{}"\<close>; \<open>req_body\<close> is the decoded body\<close>
  "payload_of r = (if req_body r = [] then ''{}'' else req_body r)"

definition client_ip_of :: "request \<Rightarrow> string" where
  "client_ip_of r = (case req_client r of None \<Rightarrow> ''unknown'' | Some h \<Rightarrow> h)"

definition payload_originator :: "deps \<Rightarrow> string \<Rightarrow> exn + string" where
  \<comment> \<open>\<open>payload_dict = safe_json_loads(payload) or {}\<close>,
      \<open>originator = payload_dict.get("originator", "")\<close> and the check on it; a value
      without the method called on it raises \<open>AttributeError\<close>\<close>
  "payload_originator d payload =
     (let payload_dict = (case safe_json_loads d payload of
            None \<Rightarrow> JObj []
          | Some v \<Rightarrow> if truthy v then v else JObj [])
      in case payload_dict of
           JObj kvs \<Rightarrow>
             (case dict_get kvs ''originator'' of
                None \<Rightarrow> Inl (AuthError InvalidOriginator)
              | Some (JStr s) \<Rightarrow>
                  if s = [] \<or> \<not> startswith s ''rs_'' then Inl (AuthError InvalidOriginator)
                  else Inr s
              | Some v \<Rightarrow>
                  if truthy v then Inl OtherError else Inl (AuthError InvalidOriginator))
         | _ \<Rightarrow> Inl OtherError)"

definition check_signature ::
  "deps \<Rightarrow> request \<Rightarrow> string \<Rightarrow> int \<Rightarrow> string \<Rightarrow> string \<Rightarrow> string \<Rightarrow> unit io" where
  \<comment> \<open>recompute the signature and compare (\<open>hmac.compare_digest\<close> on the encoded texts)\<close>
  "check_signature d r signature timestamp nonce version secret =
     (case compute_signature d secret (payload_of r) timestamp nonce (req_method r) (req_path r)
             version of
        Inl f \<Rightarrow> raise (AuthError f)
      | Inr expected_signature \<Rightarrow>
          if utf8_encode signature \<noteq> utf8_encode expected_signature
          then raise (AuthError SignatureMismatch)
          else ret ())"

definition checks_after_nonce ::
  "deps \<Rightarrow> auth_config \<Rightarrow> int \<Rightarrow> request \<Rightarrow> string \<Rightarrow> int \<Rightarrow> string \<Rightarrow> string \<Rightarrow> string
     \<Rightarrow> unit io" where
  \<comment> \<open>fetch the secret, recompute the signature, compare\<close>
  "checks_after_nonce d cfg now r signature timestamp nonce version originator =
     io_bind (get_secret d cfg now originator version)
       (check_signature d r signature timestamp nonce version)"

definition checks_after_rate_limit ::
  "deps \<Rightarrow> auth_config \<Rightarrow> int \<Rightarrow> request \<Rightarrow> string \<Rightarrow> int \<Rightarrow> string \<Rightarrow> string \<Rightarrow> string
     \<Rightarrow> unit io" where
  \<comment> \<open>the timestamp window, then the nonce, then the rest\<close>
  "checks_after_rate_limit d cfg now r signature timestamp nonce version originator =
     (if \<not> validate_timestamp cfg now timestamp then raise (AuthError TimestampOutOfRange)
      else io_bind (validate_nonce cfg now nonce originator) (\<lambda>fresh.
        if \<not> fresh then raise (AuthError NonceUsedOrInvalid)
        else checks_after_nonce d cfg now r signature timestamp nonce version originator))"

definition verify_checks ::
  "deps \<Rightarrow> auth_config \<Rightarrow> int \<Rightarrow> request \<Rightarrow> string \<Rightarrow> int \<Rightarrow> string \<Rightarrow> string \<Rightarrow> string
     \<Rightarrow> unit io" where
  \<comment> \<open>the steps of \<open>verify_signature\<close> after the header and the originator are known\<close>
  "verify_checks d cfg now r signature timestamp nonce version originator =
     io_bind (check_rate_limit cfg now originator (client_ip_of r)) (\<lambda>under_limit.
       if \<not> under_limit then raise (AuthError RateLimitExceeded)
       else checks_after_rate_limit d cfg now r signature timestamp nonce version originator)"

definition verify_body :: "deps \<Rightarrow> auth_config \<Rightarrow> int \<Rightarrow> request \<Rightarrow> unit io" where
  "verify_body d cfg now r =
     (case parse_auth_header (req_auth r) of
        Inl f \<Rightarrow> raise (AuthError f)
      | Inr (signature, timestamp, nonce, version) \<Rightarrow>
          (case payload_originator d (payload_of r) of
             Inl e \<Rightarrow> raise e
           | Inr originator \<Rightarrow>
               verify_checks d cfg now r signature timestamp nonce version originator))"

datatype verify_result = Verified | Unauthorized auth_failure | InternalError

definition verify_signature ::
  "deps \<Rightarrow> auth_config \<Rightarrow> int \<Rightarrow> request \<Rightarrow> world \<Rightarrow> verify_result \<times> world" where
  \<comment> \<open>\<open>QuantumAuthManager.verify_signature\<close> at clock reading \<open>now\<close>: a QuantumAuthError
      is answered 401 with its message, any other exception 500\<close>
  "verify_signature d cfg now r w =
     (case verify_body d cfg now r w of
        (Inr _, w') \<Rightarrow> (Verified, w')
      | (Inl (AuthError f), w') \<Rightarrow> (Unauthorized f, w')
      | (Inl OtherError, w') \<Rightarrow> (InternalError, w'))"

section \<open>Sandbox: running a command in a container\<close>

text \<open>
  The Docker daemon is the environment: a table of containers by name, and four switches
  telling which of its calls fail. What the command does when run is its workload: it
  finishes after some seconds with an exit code and its two outputs, or it never does.
\<close>

datatype cstate = Created | Running | Exited int | Killed

record docker =
  containers :: "string \<Rightarrow> cstate option"
  create_fails :: bool
  start_fails :: bool
  kill_fails :: bool
  delete_fails :: bool






definition container_kill :: "string \<Rightarrow> docker \<Rightarrow> docker" where
  \<comment> \<open>\<open>container.kill(signal="SIGKILL")\<close> with its exception dropped: only a running
      container can be killed\<close>
  "container_kill cid dk =
     (if kill_fails dk then dk
      else (case containers dk cid of
          Some Running \<Rightarrow> dk\<lparr>containers := (containers dk)(cid \<mapsto> Killed)\<rparr>
        | _ \<Rightarrow> dk))"

definition container_delete :: "string \<Rightarrow> docker \<Rightarrow> docker" where
  \<comment> \<open>\<open>container.delete(force=True)\<close> with its exception dropped\<close>
  "container_delete cid dk =
     (if delete_fails dk then dk else dk\<lparr>containers := (containers dk)(cid := None)\<rparr>)"

definition teardown :: "string \<Rightarrow> docker \<Rightarrow> docker" where
  \<comment> \<open>the \<open>finally\<close> block of \<open>run_command\<close>\<close>
  "teardown cid dk = container_delete cid (container_kill cid dk)"



section \<open>JobProcessor\<close>










section \<open>ArtifactStorage\<close>

text \<open>
  The file system is a table from paths to contents, and its operations do not fail; a
  stream is the list of its chunks. The hash function is a parameter.
\<close>

definition path_join :: "string \<Rightarrow> string \<Rightarrow> string" where
  \<comment> \<open>\<open>os.path.join(a, b)\<close> for a relative \<open>b\<close>\<close>
  "path_join a b = (if a = [] then b else if last a = CHR ''/'' then a @ b else a @ ''/'' @ b)"

definition id_char :: "char \<Rightarrow> bool" where
  \<comment> \<open>the characters \<open>[a-zA-Z0-9_-]\<close> that \<open>_sanitize_id\<close> keeps\<close>
  "id_char c = (let n = (of_char c :: nat) in
     (97 \<le> n \<and> n \<le> 122) \<or> (65 \<le> n \<and> n \<le> 90) \<or> (48 \<le> n \<and> n \<le> 57) \<or> n = 95 \<or> n = 45)"

definition sanitize_id :: "string \<Rightarrow> string" where
  "sanitize_id artifact_id = take 255 (filter id_char artifact_id)"

record storage_config =
  base_path :: string
  max_file_size :: int
  temp_dir :: string

record store =
  files :: "string \<Rightarrow> string option"
  total_uploads :: nat
  total_deletes :: nat
  failed_operations :: nat
  total_bytes_stored :: int

definition get_file_path :: "storage_config \<Rightarrow> string \<Rightarrow> string" where
  "get_file_path cfg artifact_id = path_join (base_path cfg) (sanitize_id artifact_id @ ''.bin'')"

definition get_temp_path :: "storage_config \<Rightarrow> string \<Rightarrow> string" where
  "get_temp_path cfg artifact_id =
     path_join (path_join (base_path cfg) (temp_dir cfg)) (sanitize_id artifact_id @ ''.tmp'')"

datatype storage_error =
    SizeLimitExceeded
  | SizeMismatch int int
  | NotFound string
  | AccessDenied string
  | Expired string
  | DeleteDenied
  | OtherStorageError

fun consume :: "int \<Rightarrow> int \<Rightarrow> string \<Rightarrow> string list \<Rightarrow> bool \<times> int \<times> string \<times> string list" where
  \<comment> \<open>the streaming loop of \<open>save_stream\<close>: the limit, the running total, the bytes
      written so far and the chunks not yet read; the result says whether the limit
      held, with the total, the bytes written and the chunks left unread\<close>
  "consume limit running written [] = (True, running, written, [])"
| "consume limit running written (chunk # rest) =
     (if chunk = [] then consume limit running written rest
      else if running + int (length chunk) > limit
        then (False, running + int (length chunk), written, rest)
      else consume limit (running + int (length chunk)) (written @ chunk) rest)"

definition cleanup_upload :: "storage_config \<Rightarrow> string \<Rightarrow> store \<Rightarrow> store" where
  \<comment> \<open>\<open>_cleanup_upload\<close>: remove the temporary and the final file\<close>
  "cleanup_upload cfg artifact_id st =
     st\<lparr>files := (files st)(get_temp_path cfg artifact_id := None,
                              get_file_path cfg artifact_id := None)\<rparr>"

definition save_failed :: "storage_config \<Rightarrow> string \<Rightarrow> store \<Rightarrow> store" where
  \<comment> \<open>the \<open>except\<close> branch of \<open>save_stream\<close>\<close>
  "save_failed cfg artifact_id st =
     (cleanup_upload cfg artifact_id st)\<lparr>failed_operations := Suc (failed_operations st)\<rparr>"

definition save_stream ::
  "(string \<Rightarrow> string) \<Rightarrow> storage_config \<Rightarrow> string \<Rightarrow> string list \<Rightarrow> int option \<Rightarrow> store
     \<Rightarrow> (storage_error + int \<times> string) \<times> string list \<times> store" where
  \<comment> \<open>\<open>ArtifactStorage.save_stream\<close>; the result carries the chunks left unread\<close>
  "save_stream sha256 cfg artifact_id stream expected_size st =
     (case consume (max_file_size cfg) 0 [] stream of
        (within, total_size, written, unread) \<Rightarrow>
          let st1 = st\<lparr>files := (files st)(get_temp_path cfg artifact_id \<mapsto> written)\<rparr> in
          if \<not> within then (Inl SizeLimitExceeded, unread, save_failed cfg artifact_id st1)
          else (case expected_size of
              Some n \<Rightarrow>
                if total_size \<noteq> n
                then (Inl (SizeMismatch n total_size), unread, save_failed cfg artifact_id st1)
                else (Inr (total_size, sha256 written), unread,
                      st1\<lparr>files := (files st1)(get_temp_path cfg artifact_id := None,
                                                get_file_path cfg artifact_id \<mapsto> written),
                          total_uploads := Suc (total_uploads st1),
                          total_bytes_stored := total_bytes_stored st1 + total_size\<rparr>)
            | None \<Rightarrow>
                (Inr (total_size, sha256 written), unread,
                 st1\<lparr>files := (files st1)(get_temp_path cfg artifact_id := None,
                                           get_file_path cfg artifact_id \<mapsto> written),
                     total_uploads := Suc (total_uploads st1),
                     total_bytes_stored := total_bytes_stored st1 + total_size\<rparr>)))"

definition storage_delete :: "storage_config \<Rightarrow> string \<Rightarrow> store \<Rightarrow> bool \<times> store" where
  \<comment> \<open>\<open>ArtifactStorage.delete_artifact\<close>\<close>
  "storage_delete cfg artifact_id st =
     (case files st (get_file_path cfg artifact_id) of
        None \<Rightarrow>
          (False, st\<lparr>files := (files st)(get_temp_path cfg artifact_id := None)\<rparr>)
      | Some content \<Rightarrow>
          (True, st\<lparr>files := (files st)(get_file_path cfg artifact_id := None,
                                         get_temp_path cfg artifact_id := None),
                    total_deletes := Suc (total_deletes st),
                    total_bytes_stored := total_bytes_stored st - int (length content)\<rparr>))"

definition load_stream :: "storage_config \<Rightarrow> string \<Rightarrow> store \<Rightarrow> storage_error + string" where
  \<comment> \<open>what iterating \<open>ArtifactStorage.load_stream\<close> yields\<close>
  "load_stream cfg artifact_id st =
     (case files st (get_file_path cfg artifact_id) of
        None \<Rightarrow> Inl (NotFound artifact_id)
      | Some content \<Rightarrow> Inr content)"

section \<open>ArtifactLedger and ArtifactManager\<close>

record metadata =
  md_artifact_id :: string
  md_originator :: string
  md_size_bytes :: int
  md_sha256_hash :: string
  md_expires_at :: "int option"
  md_access_control :: "string \<Rightarrow> string list option"

text \<open>
  The ledger's table is the list of its rows; the manager's metadata cache and its usage
  counters live in the shared cache, the first a table by artifact id, absent when the
  manager runs without a cache client. The ledger is taken without its own cache, which
  every write of the ledger invalidates.
\<close>

record manager =
  storage_cfg :: storage_config
  storage :: store
  ledger_rows :: "metadata list"
  audit_log :: "(string \<times> string \<times> string) list"
  meta_cache :: "(string \<Rightarrow> metadata option) option"
  storage_usage :: "string \<Rightarrow> int"

definition ledger_get :: "manager \<Rightarrow> string \<Rightarrow> metadata option" where
  "ledger_get m artifact_id = find (\<lambda>row. md_artifact_id row = artifact_id) (ledger_rows m)"

definition ledger_delete :: "string \<Rightarrow> string \<Rightarrow> manager \<Rightarrow> bool \<times> manager" where
  \<comment> \<open>\<open>ArtifactLedger.delete_artifact\<close>: audit entry, then the row\<close>
  "ledger_delete artifact_id deleted_by m =
     (case ledger_get m artifact_id of
        None \<Rightarrow> (False, m)
      | Some row \<Rightarrow>
          (True, m\<lparr>ledger_rows := filter (\<lambda>row. md_artifact_id row \<noteq> artifact_id) (ledger_rows m),
                   audit_log := audit_log m @ [(artifact_id, ''DELETE'', deleted_by)]\<rparr>))"

definition get_expired_artifacts :: "int \<Rightarrow> manager \<Rightarrow> string list" where
  \<comment> \<open>\<open>ArtifactLedger.get_expired_artifacts\<close> at clock reading \<open>now\<close>\<close>
  "get_expired_artifacts now m =
     map md_artifact_id
       (filter (\<lambda>row. case md_expires_at row of None \<Rightarrow> False | Some t \<Rightarrow> t < now)
          (ledger_rows m))"

definition get_artifact_metadata :: "string \<Rightarrow> manager \<Rightarrow> metadata option \<times> manager" where
  \<comment> \<open>\<open>ArtifactManager.get_artifact_metadata\<close>: the cache first, then the ledger, whose
      answer is cached\<close>
  "get_artifact_metadata artifact_id m =
     (case (case meta_cache m of None \<Rightarrow> None | Some c \<Rightarrow> c artifact_id) of
        Some cached \<Rightarrow> (Some cached, m)
      | None \<Rightarrow>
          (case ledger_get m artifact_id of
             None \<Rightarrow> (None, m)
           | Some row \<Rightarrow>
               (Some row,
                (case meta_cache m of
                   None \<Rightarrow> m
                 | Some c \<Rightarrow> m\<lparr>meta_cache := Some (c(artifact_id \<mapsto> row))\<rparr>))))"

definition check_access :: "metadata \<Rightarrow> string \<Rightarrow> string \<Rightarrow> bool" where
  \<comment> \<open>\<open>ArtifactManager._check_access\<close>\<close>
  "check_access md requester permission =
     (if md_originator md = requester then True
      else requester \<in> set (case md_access_control md permission of None \<Rightarrow> [] | Some us \<Rightarrow> us))"

record download_result =
  dl_artifact_id :: string
  dl_size_bytes :: int
  dl_sha256_hash :: string
  dl_stream :: "storage_error + string"

definition download_artifact ::
  "int \<Rightarrow> string \<Rightarrow> string option \<Rightarrow> manager \<Rightarrow> (storage_error + download_result) \<times> manager" where
  \<comment> \<open>\<open>ArtifactManager.download_artifact\<close> at clock reading \<open>now\<close>\<close>
  "download_artifact now artifact_id requester m =
     (case get_artifact_metadata artifact_id m of
        (None, m1) \<Rightarrow> (Inl (NotFound artifact_id), m1)
      | (Some md, m1) \<Rightarrow>
          if (case requester of None \<Rightarrow> False | Some u \<Rightarrow> u \<noteq> [] \<and> \<not> check_access md u ''read'')
            then (Inl (AccessDenied artifact_id), m1)
          else if (case md_expires_at md of None \<Rightarrow> False | Some t \<Rightarrow> t < now)
            then (Inl (Expired artifact_id), m1)
          else (Inr \<lparr> dl_artifact_id = artifact_id, dl_size_bytes = md_size_bytes md,
                      dl_sha256_hash = md_sha256_hash md,
                      dl_stream = load_stream (storage_cfg m1) artifact_id (storage m1) \<rparr>, m1))"

definition delete_artifact :: "string \<Rightarrow> string \<Rightarrow> manager \<Rightarrow> bool \<times> manager" where
  \<comment> \<open>\<open>ArtifactManager.delete_artifact\<close>: the storage error it raises on a refusal is
      caught by its own handler, which answers \<open>False\<close>\<close>
  "delete_artifact artifact_id requester m =
     (case get_artifact_metadata artifact_id m of
        (None, m1) \<Rightarrow> (False, m1)
      | (Some md, m1) \<Rightarrow>
          if \<not> check_access md requester ''write'' then (False, m1)
          else
            let m2 = m1\<lparr>storage := snd (storage_delete (storage_cfg m1) artifact_id (storage m1))\<rparr>;
                m3 = snd (ledger_delete artifact_id ''system'' m2)
            in (True, (case meta_cache m3 of
                         None \<Rightarrow> m3
                       | Some c \<Rightarrow>
                           m3\<lparr>storage_usage := (storage_usage m3)
                                (md_originator md :=
                                   storage_usage m3 (md_originator md) - md_size_bytes md),
                              meta_cache := Some (c(artifact_id := None))\<rparr>)))"

fun delete_each :: "string list \<Rightarrow> manager \<Rightarrow> manager" where
  \<comment> \<open>the loop of \<open>cleanup_expired_artifacts\<close>\<close>
  "delete_each [] m = m"
| "delete_each (artifact_id # rest) m =
     delete_each rest (snd (delete_artifact artifact_id ''system'' m))"

definition cleanup_expired_artifacts :: "int \<Rightarrow> manager \<Rightarrow> manager" where
  \<comment> \<open>\<open>ArtifactManager.cleanup_expired_artifacts\<close> at clock reading \<open>now\<close>\<close>
  "cleanup_expired_artifacts now m = delete_each (get_expired_artifacts now m) m"

definition manager_limit :: int where
  \<comment> \<open>the limit written into \<open>upload_artifact\<close>\<close>
  "manager_limit = 100 * 1024 * 1024"

definition upload_temp_path :: "manager \<Rightarrow> string \<Rightarrow> string" where
  "upload_temp_path m artifact_id = path_join (base_path (storage_cfg m)) (''temp_'' @ artifact_id)"

fun receive :: "int \<Rightarrow> int \<Rightarrow> string \<Rightarrow> string list \<Rightarrow> bool \<times> int \<times> string \<times> string list" where
  \<comment> \<open>the reading loop of \<open>upload_artifact\<close> over the successive results of
      \<open>file.read(8192)\<close>: an empty read ends it, and the chunk is written before the
      total is checked\<close>
  "receive limit running written [] = (True, running, written, [])"
| "receive limit running written (chunk # rest) =
     (if chunk = [] then (True, running, written, rest)
      else if running + int (length chunk) > limit
        then (False, running + int (length chunk), written @ chunk, rest)
      else receive limit (running + int (length chunk)) (written @ chunk) rest)"

definition cleanup_artifact :: "string \<Rightarrow> manager \<Rightarrow> manager" where
  \<comment> \<open>\<open>ArtifactManager._cleanup_artifact\<close>\<close>
  "cleanup_artifact artifact_id m =
     snd (ledger_delete artifact_id ''system''
       (m\<lparr>storage := snd (storage_delete (storage_cfg m) artifact_id (storage m))\<rparr>))"

definition remove_temp :: "string \<Rightarrow> manager \<Rightarrow> manager" where
  \<comment> \<open>the \<open>finally\<close> block of \<open>upload_artifact\<close>\<close>
  "remove_temp temp_path m = m\<lparr>storage := (storage m)\<lparr>files := (files (storage m))(temp_path := None)\<rparr>\<rparr>"

definition upload_artifact ::
  "(string \<Rightarrow> string \<Rightarrow> int \<Rightarrow> string \<Rightarrow> manager \<Rightarrow> (storage_error + 'a) \<times> manager)
     \<Rightarrow> string \<Rightarrow> string list \<Rightarrow> manager \<Rightarrow> (storage_error + 'a) \<times> string list \<times> manager" where
  \<comment> \<open>\<open>ArtifactManager.upload_artifact\<close> for the fresh id drawn for the upload. The steps
      after the reading loop (quota, \<open>save_file\<close>, ledger record, cache) are the
      parameter \<open>finish\<close>: \<open>save_file\<close> is not in the sources.\<close>
  "upload_artifact finish artifact_id reads m =
     (let temp_path = upload_temp_path m artifact_id in
      case receive manager_limit 0 [] reads of
        (within, total_size, written, unread) \<Rightarrow>
          let m1 = m\<lparr>storage := (storage m)\<lparr>files := (files (storage m))(temp_path \<mapsto> written)\<rparr>\<rparr> in
          if \<not> within
          then (Inl SizeLimitExceeded, unread, remove_temp temp_path (cleanup_artifact artifact_id m1))
          else (case finish artifact_id temp_path total_size written m1 of
              (Inl e, m2) \<Rightarrow> (Inl e, unread, remove_temp temp_path (cleanup_artifact artifact_id m2))
            | (Inr res, m2) \<Rightarrow> (Inr res, unread, remove_temp temp_path m2)))"

definition stream_size :: "string list \<Rightarrow> int" where
  \<comment> \<open>the cumulative size of a stream of chunks\<close>
  "stream_size chunks = sum_list (map (\<lambda>c. int (length c)) chunks)"

definition access_list :: "metadata \<Rightarrow> string \<Rightarrow> string list" where
  \<comment> \<open>\<open>accessControl[action]\<close>, empty when the action has no list\<close>
  "access_list md permission =
     (case md_access_control md permission of None \<Rightarrow> [] | Some us \<Rightarrow> us)"

section \<open>SchemaManager and its load gate\<close>

text \<open>
  The callers of \<open>load_and_validate_schema\<close> for one schema key run as tasks of one
  event loop: a task runs until it suspends, and the tasks interleave at their
  suspension points only. The state is the manager's (its in-process cache, the gate's
  tables for the key) together with the place each caller has reached; a step runs one
  caller from one suspension point to the next. What the collaborators answer is the
  environment: the shared cache, the schema file, the freshness check, and whether a
  loaded value is a dictionary (reading the metadata of another value raises).
\<close>

type_synonym schema = string
type_synonym load_error = string

record gate_env =
  shared_cache :: "schema option"
  schema_file :: "load_error + schema"
  is_fresh :: "nat \<Rightarrow> bool"
  is_dict :: "schema \<Rightarrow> bool"
  attribute_error :: load_error

datatype place =
    Start
  | CheckFresh schema
  | AtGate
  | Waiting
  | LoadShared
  | LoadFile
  | PushShared schema
  | Returned schema
  | Raised load_error
  | Crashed

record gate_state =
  schema_cache :: "schema option"
  gate_open :: bool
  gate_was_set :: bool
  results :: "schema option"
  exceptions :: "load_error option"
  file_reads :: nat
  loads_started :: nat
  callers :: "place list"

definition move :: "nat \<Rightarrow> place \<Rightarrow> gate_state \<Rightarrow> gate_state" where
  "move i p s = s\<lparr>callers := (callers s)[i := p]\<rparr>"

definition set_exception :: "nat \<Rightarrow> load_error \<Rightarrow> gate_state \<Rightarrow> gate_state" where
  \<comment> \<open>the \<open>except\<close> branch: \<open>LoadGate.set_exception\<close>, then the error is raised again\<close>
  "set_exception i e s =
     move i (Raised e) (s\<lparr>exceptions := Some e, gate_open := False,
                           gate_was_set := (gate_was_set s \<or> gate_open s)\<rparr>)"

definition publish :: "gate_env \<Rightarrow> nat \<Rightarrow> schema \<Rightarrow> gate_state \<Rightarrow> gate_state" where
  \<comment> \<open>store in the in-process cache, read the metadata, \<open>LoadGate.set_result\<close>, return\<close>
  "publish env i sc s =
     (if is_dict env sc
      then move i (Returned sc)
             (s\<lparr>schema_cache := Some sc, results := Some sc, gate_open := False,
                 gate_was_set := (gate_was_set s \<or> gate_open s)\<rparr>)
      else set_exception i (attribute_error env) (s\<lparr>schema_cache := Some sc\<rparr>))"

definition wait_for_load :: "nat \<Rightarrow> gate_state \<Rightarrow> gate_state" where
  \<comment> \<open>the first locked block of \<open>LoadGate.wait_for_load\<close>, and what the caller does
      with its answer\<close>
  "wait_for_load i s =
     (case results s of
        Some r \<Rightarrow> move i (Returned r) s
      | None \<Rightarrow>
          (case exceptions s of
             Some e \<Rightarrow> move i (Raised e) s
           | None \<Rightarrow>
               if gate_open s then move i Waiting s
               else move i LoadShared (s\<lparr>gate_open := True, loads_started := Suc (loads_started s)\<rparr>)))"

definition wake :: "nat \<Rightarrow> gate_state \<Rightarrow> gate_state" where
  \<comment> \<open>\<open>gate.wait()\<close> returns once the event is set; then the second locked block\<close>
  "wake i s =
     (if \<not> gate_was_set s then s
      else (case results s of
          Some r \<Rightarrow> move i (Returned r) s
        | None \<Rightarrow>
            (case exceptions s of
               Some e \<Rightarrow> move i (Raised e) s
             | None \<Rightarrow> move i Crashed s)))"

definition advance :: "gate_env \<Rightarrow> nat \<Rightarrow> gate_state \<Rightarrow> gate_state" where
  \<comment> \<open>caller \<open>i\<close> runs to its next suspension point, if it can run\<close>
  "advance env i s =
     (if length (callers s) \<le> i then s
      else (case callers s ! i of
          Start \<Rightarrow>
            (case schema_cache s of
               Some cached \<Rightarrow> move i (CheckFresh cached) s
             | None \<Rightarrow> move i AtGate s)
        | CheckFresh cached \<Rightarrow>
            if is_dict env cached \<and> is_fresh env i then move i (Returned cached) s
            else move i AtGate s
        | AtGate \<Rightarrow> wait_for_load i s
        | Waiting \<Rightarrow> wake i s
        | LoadShared \<Rightarrow>
            (case shared_cache env of
               Some sc \<Rightarrow> publish env i sc s
             | None \<Rightarrow> move i LoadFile s)
        | LoadFile \<Rightarrow>
            (case schema_file env of
               Inl e \<Rightarrow> set_exception i e (s\<lparr>file_reads := Suc (file_reads s)\<rparr>)
             | Inr sc \<Rightarrow> move i (PushShared sc) (s\<lparr>file_reads := Suc (file_reads s)\<rparr>))
        | PushShared sc \<Rightarrow> publish env i sc s
        | Returned sc \<Rightarrow> s
        | Raised e \<Rightarrow> s
        | Crashed \<Rightarrow> s))"

definition run :: "gate_env \<Rightarrow> nat list \<Rightarrow> gate_state \<Rightarrow> gate_state" where
  \<comment> \<open>the event loop running the callers in the order of a schedule\<close>
  "run env schedule s = foldl (\<lambda>s i. advance env i s) s schedule"

definition cold :: "nat \<Rightarrow> gate_state" where
  \<comment> \<open>\<open>n\<close> callers about to ask for a key that nothing holds yet\<close>
  "cold n = \<lparr> schema_cache = None, gate_open = False, gate_was_set = False, results = None,
              exceptions = None, file_reads = 0, loads_started = 0,
              callers = replicate n Start \<rparr>"

fun finished :: "place \<Rightarrow> bool" where
  "finished (Returned sc) = True"
| "finished (Raised e) = True"
| "finished Crashed = True"
| "finished p = False"

fun loading :: "place \<Rightarrow> bool" where
  "loading LoadShared = True"
| "loading LoadFile = True"
| "loading (PushShared sc) = True"
| "loading p = False"

fun steps_left :: "place \<Rightarrow> nat" where
  \<comment> \<open>a bound on the steps a caller can still take\<close>
  "steps_left Start = 7"
| "steps_left (CheckFresh c) = 6"
| "steps_left AtGate = 5"
| "steps_left LoadShared = 4"
| "steps_left LoadFile = 3"
| "steps_left (PushShared sc) = 2"
| "steps_left Waiting = 1"
| "steps_left p = 0"

definition load_outcome :: "gate_env \<Rightarrow> place" where
  \<comment> \<open>what one load of the key ends in: the shared cache's schema or else the file's,
      or the error of reading either\<close>
  "load_outcome env =
     (case shared_cache env of
        Some sc \<Rightarrow> if is_dict env sc then Returned sc else Raised (attribute_error env)
      | None \<Rightarrow>
          (case schema_file env of
             Inl e \<Rightarrow> Raised e
           | Inr sc \<Rightarrow> if is_dict env sc then Returned sc else Raised (attribute_error env)))"

definition steps_total :: "gate_state \<Rightarrow> nat" where
  \<comment> \<open>a bound on the steps the callers can still take together\<close>
  "steps_total s = sum_list (map steps_left (callers s))"

section \<open>The signing input as the interface contract words it\<close>

fun join_with :: "string \<Rightarrow> string list \<Rightarrow> string" where
  \<comment> \<open>\<open>sep.join(parts)\<close>\<close>
  "join_with sep [] = []"
| "join_with sep [x] = x"
| "join_with sep (x # y # ys) = x @ sep @ join_with sep (y # ys)"

definition spec_signing_input ::
  "deps \<Rightarrow> string \<Rightarrow> string \<Rightarrow> string \<Rightarrow> int \<Rightarrow> string \<Rightarrow> string \<Rightarrow> string" where
  \<comment> \<open>v1: METHOD, PATH, TIMESTAMP, NONCE, RAW_BODY joined by newlines;
      v2: v2, METHOD, PATH, TIMESTAMP, NONCE, SHA256(RAW_BODY) joined by newlines\<close>
  "spec_signing_input d version method path timestamp nonce raw_body =
     (if version = ''v2''
      then join_with nl [''v2'', method, path, str_of_int timestamp, nonce,
                         compute_sha256 d (utf8_encode raw_body)]
      else join_with nl [method, path, str_of_int timestamp, nonce, raw_body])"

section \<open>Concrete collaborators and inputs for the examples\<close>

text \<open>
  Stand-ins for the library functions, enough to run the code on concrete requests: the
  MAC concatenates key and message, the base64 stand-in drops whitespace (a signature is
  one token of the header), the JSON loader knows the one body used below.
\<close>

definition example_body :: string where
  \<open>example_body = ''{"originator": "rs_a"}''\<close>

definition example_deps :: deps where
  "example_deps =
     \<lparr> hmac_sha256 = (\<lambda>k m. k @ m),
       b64encode = filter (\<lambda>c. \<not> is_space c),
       compute_sha256 = (\<lambda>b. ''h'' @ b),
       safe_json_loads = (\<lambda>s. if s = example_body
                                 then Some (JObj [(''originator'', JStr ''rs_a'')]) else None),
       encrypt_secret = (\<lambda>s. Some (''enc:'' @ s)),
       decrypt_secret = (\<lambda>s. Some (drop 4 s)) \<rparr>"

definition example_config :: auth_config where
  "example_config = default_config ''k3y''"

definition example_request :: "string \<Rightarrow> request" where
  \<comment> \<open>a POST of the example body from 10.0.0.7 under the given Authorization header\<close>
  "example_request hdr =
     \<lparr> req_method = ''POST'', req_path = ''/intents'', req_body = example_body,
       req_auth = Some hdr, req_client = Some ''10.0.0.7'' \<rparr>"

definition example_signature :: string where
  \<comment> \<open>what the stand-ins compute for the example request under version v1, timestamp
      1000, nonce n1 and the configured secret\<close>
  \<open>example_signature = ''k3yPOST/intents1000n1{"originator":"rs_a"}''\<close>

definition signed_header :: string where
  "signed_header = ''Quantum v1 '' @ example_signature @ '' 1000 n1''"

definition empty_world :: world where
  "empty_world = \<lparr> cache = (\<lambda>k. None), cache_faults = [], nonce_table = [], db_faults = [] \<rparr>"

definition busy_world :: world where
  \<comment> \<open>the caller has made 59 requests in the current window\<close>
  "busy_world = empty_world\<lparr> cache := [originator_key ''rs_a'' \<mapsto> (CInt 59, Some 1030)] \<rparr>"

definition unsigned_header :: string where
  \<comment> \<open>the same header carrying a signature that does not match\<close>
  "unsigned_header = ''Quantum v1 AAAA 1000 n1''"

definition four_token_signature :: string where
  \<comment> \<open>the stand-in signature of the example request for an empty nonce\<close>
  \<open>four_token_signature = ''k3yPOST/intents1000{"originator":"rs_a"}''\<close>

definition four_token_header :: string where
  "four_token_header = ''Quantum v1 '' @ four_token_signature @ '' 1000''"

definition limiter_down_world :: world where
  \<comment> \<open>the first cache round trip raises, the later ones succeed\<close>
  "limiter_down_world = empty_world\<lparr> cache_faults := [True] \<rparr>"

definition nonce_down_world :: world where
  \<comment> \<open>the five round trips of the rate limiter succeed, the next one raises\<close>
  "nonce_down_world = empty_world\<lparr> cache_faults := [False, False, False, False, False, True] \<rparr>"




definition small_storage :: storage_config where
  \<comment> \<open>a storage that takes files of at most four bytes\<close>
  "small_storage = \<lparr> base_path = ''/data'', max_file_size = 4, temp_dir = ''.tmp'' \<rparr>"

definition empty_store :: store where
  "empty_store = \<lparr> files = (\<lambda>p. None), total_uploads = 0, total_deletes = 0,
                   failed_operations = 0, total_bytes_stored = 0 \<rparr>"


definition empty_manager :: manager where
  "empty_manager = \<lparr> storage_cfg = small_storage, storage = empty_store, ledger_rows = [],
                     audit_log = [], meta_cache = Some (\<lambda>a. None), storage_usage = (\<lambda>u. 0) \<rparr>"

definition owner_a :: string where
  \<comment> \<open>a well-formed originator: the prefix and 61 more characters\<close>
  "owner_a = ''rs_'' @ replicate 61 (CHR ''a'')"

definition stranger_b :: string where
  "stranger_b = ''rs_'' @ replicate 61 (CHR ''b'')"

definition example_md :: metadata where
  \<comment> \<open>an artifact of three bytes owned by \<open>owner_a\<close>, with the default (empty) access
      lists, expiring at time 500\<close>
  "example_md =
     \<lparr> md_artifact_id = ''a1'', md_originator = owner_a, md_size_bytes = 3,
       md_sha256_hash = replicate 64 (CHR ''0''), md_expires_at = Some 500,
       md_access_control = [''read'' \<mapsto> [], ''write'' \<mapsto> []] \<rparr>"

definition stocked_manager :: manager where
  \<comment> \<open>the manager holding that artifact, bytes and ledger row\<close>
  "stocked_manager =
     empty_manager\<lparr> ledger_rows := [example_md],
                    storage := empty_store\<lparr>files := [get_file_path small_storage ''a1'' \<mapsto> ''abc'']\<rparr> \<rparr>"

definition file_env :: gate_env where
  \<comment> \<open>the shared cache does not have the schema, the schema file does\<close>
  "file_env = \<lparr> shared_cache = None, schema_file = Inr ''schema'', is_fresh = (\<lambda>i. True),
                is_dict = (\<lambda>sc. True), attribute_error = ''AttributeError'' \<rparr>"

definition three_callers :: "nat list" where
  \<comment> \<open>caller 0 takes the gate and starts loading; callers 1 and 2 arrive while the load
      is in flight; the load ends; the two are woken\<close>
  "three_callers = [0, 0, 1, 1, 0, 2, 2, 0, 0, 1, 2]"

section \<open>Auxiliary notions for the proofs\<close>

definition frame_on :: "string set \<Rightarrow> world \<Rightarrow> world \<Rightarrow> bool" where
  \<comment> \<open>a step touched the cache at the keys of \<open>K\<close> only, left the durable table alone,
      and kept a healthy cache healthy\<close>
  "frame_on K w w' =
     ((\<forall>k. k \<notin> K \<longrightarrow> cache w' k = cache w k) \<and> nonce_table w' = nonce_table w \<and>
      db_faults w' = db_faults w \<and> (cache_faults w = [] \<longrightarrow> cache_faults w' = []))"

text \<open>
  The three phases of the gate for a key: nothing asked yet; one load in flight, run by
  caller \<open>k\<close>; the load over and its outcome in the gate's tables.
\<close>

definition cold_phase :: "gate_state \<Rightarrow> bool" where
  "cold_phase s =
     (schema_cache s = None \<and> \<not> gate_open s \<and> \<not> gate_was_set s \<and> results s = None \<and>
      exceptions s = None \<and> file_reads s = 0 \<and> loads_started s = 0 \<and>
      (\<forall>j < length (callers s). callers s ! j = Start \<or> callers s ! j = AtGate))"

fun loader_ok :: "gate_env \<Rightarrow> nat \<Rightarrow> place \<Rightarrow> bool" where
  "loader_ok env reads LoadShared = (reads = 0)"
| "loader_ok env reads LoadFile = (shared_cache env = None \<and> reads = 0)"
| "loader_ok env reads (PushShared sc) =
     (shared_cache env = None \<and> schema_file env = Inr sc \<and> reads = 1)"
| "loader_ok env reads p = False"

definition in_flight :: "gate_env \<Rightarrow> nat \<Rightarrow> gate_state \<Rightarrow> bool" where
  "in_flight env k s =
     (k < length (callers s) \<and> loader_ok env (file_reads s) (callers s ! k) \<and>
      schema_cache s = None \<and> gate_open s \<and> \<not> gate_was_set s \<and> results s = None \<and>
      exceptions s = None \<and> loads_started s = 1 \<and>
      (\<forall>j < length (callers s). j \<noteq> k \<longrightarrow>
          callers s ! j = Start \<or> callers s ! j = AtGate \<or> callers s ! j = Waiting))"

fun settled_place :: "gate_state \<Rightarrow> place \<Rightarrow> bool" where
  "settled_place s Start = True"
| "settled_place s (CheckFresh c) = (schema_cache s = Some c)"
| "settled_place s AtGate = True"
| "settled_place s Waiting = True"
| "settled_place s (Returned r) = (results s = Some r)"
| "settled_place s (Raised e) = (exceptions s = Some e)"
| "settled_place s p = False"

definition settled :: "gate_env \<Rightarrow> gate_state \<Rightarrow> bool" where
  "settled env s =
     (\<not> gate_open s \<and> gate_was_set s \<and> loads_started s = 1 \<and>
      file_reads s = (if shared_cache env = None then 1 else 0) \<and>
      (case results s of
         Some r \<Rightarrow> exceptions s = None \<and> load_outcome env = Returned r \<and>
                   schema_cache s = Some r \<and> is_dict env r
       | None \<Rightarrow> (\<exists>e. exceptions s = Some e \<and> load_outcome env = Raised e) \<and>
                 (\<forall>c. schema_cache s = Some c \<longrightarrow> \<not> is_dict env c)) \<and>
      (\<forall>j < length (callers s). settled_place s (callers s ! j)))"

definition gate_inv :: "gate_env \<Rightarrow> gate_state \<Rightarrow> bool" where
  \<comment> \<open>every state the callers can reach from a cold key is in one of the phases\<close>
  "gate_inv env s = (cold_phase s \<or> (\<exists>k. in_flight env k s) \<or> settled env s)"

section \<open>Properties of the cache operations\<close>

lemma frame_on_refl: "frame_on K w w"
  by (simp add: frame_on_def)

lemma frame_on_trans: "frame_on K w w1 \<Longrightarrow> frame_on K w1 w2 \<Longrightarrow> frame_on K w w2"
  by (simp add: frame_on_def)

lemma frame_on_mono: "frame_on K w w' \<Longrightarrow> K \<subseteq> K' \<Longrightarrow> frame_on K' w w'"
  by (auto simp: frame_on_def)

lemma frame_on_cache: "frame_on K w w' \<Longrightarrow> k \<notin> K \<Longrightarrow> cache w' k = cache w k"
  by (simp add: frame_on_def)

lemma frame_on_cache_get:
  "frame_on K w w' \<Longrightarrow> k \<notin> K \<Longrightarrow> cache_get now w' k = cache_get now w k"
  by (simp add: frame_on_def cache_get_def)

lemma frame_on_healthy: "frame_on K w w' \<Longrightarrow> cache_faults w = [] \<Longrightarrow> cache_faults w' = []"
  by (simp add: frame_on_def)

lemma frame_on_db:
  "frame_on K w w' \<Longrightarrow> nonce_table w' = nonce_table w \<and> db_faults w' = db_faults w"
  by (simp add: frame_on_def)

lemma io_bind_cases:
  assumes "io_bind m f w = (x, w')"
  obtains (raised) e where "m w = (Inl e, w')" "x = Inl e"
        | (returned) a w1 where "m w = (Inr a, w1)" "f a w1 = (x, w')"
proof (cases "m w")
  case (Pair r w1)
  show ?thesis
  proof (cases r)
    case (Inl e)
    with Pair assms raised show ?thesis by (simp add: io_bind_def)
  next
    case (Inr a)
    with Pair assms returned show ?thesis by (simp add: io_bind_def)
  qed
qed

lemma io_bind_returns: "m w = (Inr a, w1) \<Longrightarrow> io_bind m f w = f a w1"
  by (simp add: io_bind_def)

lemma io_bind_raises: "m w = (Inl e, w1) \<Longrightarrow> io_bind m f w = (Inl e, w1)"
  by (simp add: io_bind_def)

lemma cache_round_trip_healthy: "cache_faults w = [] \<Longrightarrow> cache_round_trip w = (Inr (), w)"
  by (simp add: cache_round_trip_def)

lemma db_round_trip_healthy: "db_faults w = [] \<Longrightarrow> db_round_trip w = (Inr (), w)"
  by (simp add: db_round_trip_def)

lemma cache_round_trip_frame: "cache_round_trip w = (x, w') \<Longrightarrow> frame_on K w w'"
  by (cases "cache_faults w") (auto simp: cache_round_trip_def frame_on_def split: if_splits)

lemma redis_incr_frame:
  assumes "redis_incr now k w = (x, w')"
  shows "frame_on {k} w w'"
  using assms unfolding redis_incr_def
proof (cases rule: io_bind_cases)
  case (raised e)
  then show ?thesis using cache_round_trip_frame by blast
next
  case (returned a w1)
  have f1: "frame_on {k} w w1"
    using returned(1) by (rule cache_round_trip_frame)
  have "frame_on {k} w1 w'"
    using returned(2)
    by (auto simp: frame_on_def split: option.splits cval.splits)
  with f1 show ?thesis by (rule frame_on_trans)
qed

lemma redis_expire_frame:
  assumes "redis_expire now k s w = (x, w')"
  shows "frame_on {k} w w'"
  using assms unfolding redis_expire_def
proof (cases rule: io_bind_cases)
  case (raised e)
  then show ?thesis using cache_round_trip_frame by blast
next
  case (returned a w1)
  have f1: "frame_on {k} w w1"
    using returned(1) by (rule cache_round_trip_frame)
  have "frame_on {k} w1 w'"
    using returned(2)
    by (auto simp: frame_on_def split: option.splits)
  with f1 show ?thesis by (rule frame_on_trans)
qed

lemma redis_setex_frame:
  assumes "redis_setex now k ttl v w = (x, w')"
  shows "frame_on {k} w w'"
  using assms unfolding redis_setex_def
proof (cases rule: io_bind_cases)
  case (raised e)
  then show ?thesis using cache_round_trip_frame by blast
next
  case (returned a w1)
  have f1: "frame_on {k} w w1"
    using returned(1) by (rule cache_round_trip_frame)
  have "frame_on {k} w1 w'"
    using returned(2)
    by (auto simp: frame_on_def split: if_splits)
  with f1 show ?thesis by (rule frame_on_trans)
qed

lemma redis_get_frame:
  assumes "redis_get now k w = (x, w')"
  shows "frame_on K w w'"
  using assms unfolding redis_get_def
proof (cases rule: io_bind_cases)
  case (raised e)
  then show ?thesis using cache_round_trip_frame by blast
next
  case (returned a w1)
  then show ?thesis using cache_round_trip_frame by auto
qed

lemma redis_exists_frame:
  assumes "redis_exists now k w = (x, w')"
  shows "frame_on K w w'"
  using assms unfolding redis_exists_def
proof (cases rule: io_bind_cases)
  case (raised e)
  then show ?thesis using cache_round_trip_frame by blast
next
  case (returned a w1)
  then show ?thesis using cache_round_trip_frame by auto
qed

lemma count_in_window_frame:
  assumes "count_in_window now k w = (x, w')"
  shows "frame_on {k} w w'"
  using assms unfolding count_in_window_def
proof (cases rule: io_bind_cases)
  case (raised e)
  from raised(1) show ?thesis by (rule redis_incr_frame)
next
  case (returned n w1)
  have f1: "frame_on {k} w w1" using returned(1) by (rule redis_incr_frame)
  show ?thesis
  proof (cases "n = 1")
    case True
    with returned(2) have "io_bind (redis_expire now k 60) (\<lambda>_. ret n) w1 = (x, w')" by simp
    then have "frame_on {k} w1 w'"
    proof (cases rule: io_bind_cases)
      case (raised e)
      from raised(1) show ?thesis by (rule redis_expire_frame)
    next
      case (returned b w2)
      then show ?thesis using redis_expire_frame by (auto simp: ret_def)
    qed
    with f1 show ?thesis by (rule frame_on_trans)
  next
    case False
    with returned(2) have "w' = w1" by (simp add: ret_def)
    with f1 show ?thesis by simp
  qed
qed

section \<open>Properties of the rate limiter\<close>

lemma check_rate_limit_body_frame:
  assumes "check_rate_limit_body cfg now originator client_ip w = (x, w')"
  shows "frame_on {originator_key originator, ip_key client_ip} w w'"
  using assms unfolding check_rate_limit_body_def get_redis_client_def
proof (cases rule: io_bind_cases)
  case (raised e)
  from raised(1) show ?thesis by (rule cache_round_trip_frame)
next
  case (returned u w1)
  have f1: "frame_on {originator_key originator, ip_key client_ip} w w1"
    using returned(1) by (rule cache_round_trip_frame)
  from returned(2) have "frame_on {originator_key originator, ip_key client_ip} w1 w'"
  proof (cases rule: io_bind_cases)
    case (raised e)
    from raised(1) have "frame_on {originator_key originator} w1 w'"
      by (rule count_in_window_frame)
    then show ?thesis by (rule frame_on_mono) simp
  next
    case (returned oc w2)
    from returned(1) have "frame_on {originator_key originator} w1 w2"
      by (rule count_in_window_frame)
    then have f2: "frame_on {originator_key originator, ip_key client_ip} w1 w2"
      by (rule frame_on_mono) simp
    from returned(2) have "frame_on {originator_key originator, ip_key client_ip} w2 w'"
    proof (cases rule: io_bind_cases)
      case (raised e)
      from raised(1) have "frame_on {ip_key client_ip} w2 w'"
        by (rule count_in_window_frame)
      then show ?thesis by (rule frame_on_mono) simp
    next
      case (returned ic w3)
      from returned(1) have "frame_on {ip_key client_ip} w2 w3"
        by (rule count_in_window_frame)
      moreover from returned(2) have "w' = w3" by (simp add: ret_def)
      ultimately show ?thesis using frame_on_mono by auto
    qed
    with f2 show ?thesis by (rule frame_on_trans)
  qed
  with f1 show ?thesis by (rule frame_on_trans)
qed

lemma check_rate_limit_cases:
  obtains (answered) b where
      "check_rate_limit_body cfg now originator client_ip w
         = (Inr b, snd (check_rate_limit cfg now originator client_ip w))"
      "fst (check_rate_limit cfg now originator client_ip w) = Inr b"
  | (failed_open) e where
      "check_rate_limit_body cfg now originator client_ip w
         = (Inl e, snd (check_rate_limit cfg now originator client_ip w))"
      "fst (check_rate_limit cfg now originator client_ip w) = Inr True"
proof (cases "check_rate_limit_body cfg now originator client_ip w")
  case (Pair r w1)
  show ?thesis
  proof (cases r)
    case (Inl e)
    with Pair failed_open show ?thesis
      by (simp add: check_rate_limit_def try_except_def ret_def)
  next
    case (Inr b)
    with Pair answered show ?thesis
      by (simp add: check_rate_limit_def try_except_def)
  qed
qed

lemma check_rate_limit_frame:
  "frame_on {originator_key originator, ip_key client_ip} w
     (snd (check_rate_limit cfg now originator client_ip w))"
  by (cases rule: check_rate_limit_cases [of cfg now originator client_ip w])
     (erule check_rate_limit_body_frame)+

lemma check_rate_limit_never_raises:
  "\<exists>b. fst (check_rate_limit cfg now originator client_ip w) = Inr b"
  by (cases rule: check_rate_limit_cases [of cfg now originator client_ip w]) auto

section \<open>Properties of the nonce check\<close>

lemma db_round_trip_cache:
  "db_round_trip w = (x, w') \<Longrightarrow> cache w' = cache w \<and> cache_faults w' = cache_faults w"
  by (cases "db_faults w") (auto simp: db_round_trip_def split: if_splits)

lemma check_nonce_exists_cache:
  assumes "check_nonce_exists nonce originator w = (x, w')"
  shows "cache w' = cache w \<and> cache_faults w' = cache_faults w"
  using assms unfolding check_nonce_exists_def
proof (cases rule: io_bind_cases)
  case (raised e)
  from raised(1) show ?thesis by (rule db_round_trip_cache)
next
  case (returned a w1)
  then show ?thesis using db_round_trip_cache by auto
qed

lemma record_nonce_cache:
  assumes "record_nonce nonce originator w = (x, w')"
  shows "cache w' = cache w \<and> cache_faults w' = cache_faults w"
  using assms unfolding record_nonce_def
proof (cases rule: io_bind_cases)
  case (raised e)
  from raised(1) show ?thesis by (rule db_round_trip_cache)
next
  case (returned a w1)
  then show ?thesis using db_round_trip_cache by auto
qed

lemma persist_nonce_cache:
  assumes "persist_nonce nonce originator w = (x, w')"
  shows "cache w' = cache w \<and> cache_faults w' = cache_faults w"
proof (cases "record_nonce nonce originator w")
  case (Pair r w1)
  with assms have "w' = w1"
    by (cases r) (simp_all add: persist_nonce_def try_except_def ret_def)
  with Pair show ?thesis using record_nonce_cache by blast
qed

lemma redis_exists_result:
  assumes "redis_exists now k w = (Inr b, w')"
  shows "b = (cache_get now w k \<noteq> None) \<and> cache w' = cache w"
  using assms unfolding redis_exists_def
proof (cases rule: io_bind_cases)
  case (raised e)
  then show ?thesis by simp
next
  case (returned a w1)
  from returned(1) have "frame_on {} w w1" by (rule cache_round_trip_frame)
  then have "cache w1 = cache w" by (auto simp: frame_on_def)
  with returned(2) show ?thesis by (auto simp: cache_get_def)
qed

lemma redis_setex_result:
  assumes "redis_setex now k ttl v w = (Inr u, w')"
  shows "0 < ttl \<and> cache w' k = Some (v, Some (now + ttl))"
  using assms unfolding redis_setex_def
proof (cases rule: io_bind_cases)
  case (raised e)
  then show ?thesis by simp
next
  case (returned a w1)
  from returned(2) show ?thesis by (auto split: if_splits)
qed

lemma validate_nonce_body_true:
  assumes "validate_nonce_body cfg now nonce originator w = (Inr True, w')"
  shows "cache_get now w (nonce_key originator nonce) = None \<and> 0 < nonce_ttl cfg \<and>
         cache w' (nonce_key originator nonce) = Some (CStr ''1'', Some (now + nonce_ttl cfg))"
  using assms unfolding validate_nonce_body_def get_redis_client_def
proof (cases rule: io_bind_cases)
  case (raised e)
  then show ?thesis by simp
next
  case (returned u w1)
  from returned(1) have "frame_on {} w w1" by (rule cache_round_trip_frame)
  then have c1: "cache w1 = cache w" by (auto simp: frame_on_def)
  from returned(2) show ?thesis
  proof (cases rule: io_bind_cases)
    case (raised e)
    then show ?thesis by simp
  next
    case (returned seen w2)
    from returned(1) have s: "seen = (cache_get now w1 (nonce_key originator nonce) \<noteq> None)"
      and c2: "cache w2 = cache w1"
      using redis_exists_result by blast+
    have ns: "\<not> seen" using returned(2) by (auto simp: ret_def)
    with returned(2) have
      "io_bind (check_nonce_exists nonce originator) (\<lambda>recorded.
         if recorded then ret False
         else io_bind (redis_setex now (nonce_key originator nonce) (nonce_ttl cfg) (CStr ''1''))
           (\<lambda>_. io_bind (persist_nonce nonce originator) (\<lambda>_. ret True))) w2 = (Inr True, w')"
      by simp
    then show ?thesis
    proof (cases rule: io_bind_cases)
      case (raised e)
      then show ?thesis by simp
    next
      case (returned recorded w3)
      have nr: "\<not> recorded" using returned(2) by (auto simp: ret_def)
      with returned(2) have
        "io_bind (redis_setex now (nonce_key originator nonce) (nonce_ttl cfg) (CStr ''1''))
           (\<lambda>_. io_bind (persist_nonce nonce originator) (\<lambda>_. ret True)) w3 = (Inr True, w')"
        by simp
      then show ?thesis
      proof (cases rule: io_bind_cases)
        case (raised e)
        then show ?thesis by simp
      next
        case (returned u4 w4)
        from returned(1) have
          r4: "0 < nonce_ttl cfg \<and>
               cache w4 (nonce_key originator nonce) = Some (CStr ''1'', Some (now + nonce_ttl cfg))"
          by (rule redis_setex_result)
        from returned(2) have "cache w' = cache w4"
        proof (cases rule: io_bind_cases)
          case (raised e)
          then show ?thesis by simp
        next
          case (returned u5 w5)
          then show ?thesis using persist_nonce_cache by (auto simp: ret_def)
        qed
        moreover from s ns have "cache_get now w1 (nonce_key originator nonce) = None"
          by (cases "cache_get now w1 (nonce_key originator nonce)") auto
        with c1 have "cache_get now w (nonce_key originator nonce) = None"
          by (simp add: cache_get_def)
        ultimately show ?thesis using r4 by simp
      qed
    qed
  qed
qed

lemma validate_nonce_cases:
  obtains (answered) b where
      "validate_nonce_body cfg now nonce originator w
         = (Inr b, snd (validate_nonce cfg now nonce originator w))"
      "fst (validate_nonce cfg now nonce originator w) = Inr b"
  | (failed_closed) e where
      "validate_nonce_body cfg now nonce originator w
         = (Inl e, snd (validate_nonce cfg now nonce originator w))"
      "fst (validate_nonce cfg now nonce originator w) = Inr False"
proof (cases "validate_nonce_body cfg now nonce originator w")
  case (Pair r w1)
  show ?thesis
  proof (cases r)
    case (Inl e)
    with Pair failed_closed show ?thesis
      by (simp add: validate_nonce_def try_except_def ret_def)
  next
    case (Inr b)
    with Pair answered show ?thesis
      by (simp add: validate_nonce_def try_except_def)
  qed
qed

lemma validate_nonce_true:
  assumes "fst (validate_nonce cfg now nonce originator w) = Inr True"
  shows "cache_get now w (nonce_key originator nonce) = None \<and> 0 < nonce_ttl cfg \<and>
         cache (snd (validate_nonce cfg now nonce originator w)) (nonce_key originator nonce)
           = Some (CStr ''1'', Some (now + nonce_ttl cfg))"
proof (cases rule: validate_nonce_cases [of cfg now nonce originator w])
  case (answered b)
  with assms have "b = True" by simp
  with answered(1) show ?thesis using validate_nonce_body_true by blast
next
  case (failed_closed e)
  with assms show ?thesis by simp
qed

lemma validate_nonce_seen:
  assumes "cache_get now w (nonce_key originator nonce) \<noteq> None"
  shows "fst (validate_nonce cfg now nonce originator w) = Inr False"
proof (cases rule: validate_nonce_cases [of cfg now nonce originator w])
  case (answered b)
  show ?thesis
  proof (cases b)
    case True
    with answered(1) have
      "validate_nonce_body cfg now nonce originator w
         = (Inr True, snd (validate_nonce cfg now nonce originator w))" by simp
    then have "cache_get now w (nonce_key originator nonce) = None"
      using validate_nonce_body_true by blast
    with assms show ?thesis by simp
  next
    case False
    with answered(2) show ?thesis by simp
  qed
next
  case (failed_closed e)
  then show ?thesis by simp
qed

lemma validate_nonce_fresh:
  assumes "cache_faults w = []" "db_faults w = []"
    and "cache_get now w (nonce_key originator nonce) = None"
    and "(originator, nonce) \<notin> set (nonce_table w)"
    and "0 < nonce_ttl cfg"
  shows "validate_nonce cfg now nonce originator w =
     (Inr True, w\<lparr>cache := (cache w)(nonce_key originator nonce \<mapsto> (CStr ''1'', Some (now + nonce_ttl cfg))),
                  nonce_table := (originator, nonce) # nonce_table w\<rparr>)"
  using assms
  by (simp add: validate_nonce_def validate_nonce_body_def try_except_def io_bind_def
      get_redis_client_def cache_round_trip_def db_round_trip_def redis_exists_def
      check_nonce_exists_def redis_setex_def persist_nonce_def record_nonce_def ret_def)

section \<open>Properties of the secret lookup\<close>

lemma io_bind_alt:
  "io_bind m f w = (case fst (m w) of Inl e \<Rightarrow> (Inl e, snd (m w)) | Inr x \<Rightarrow> f x (snd (m w)))"
  by (simp add: io_bind_def split: prod.splits sum.splits)

lemma secret_fallback_frame:
  assumes "secret_fallback d cfg now k w = (x, w')"
  shows "frame_on {k} w w'"
proof (cases "utf8_encode (quantum_secret cfg) = []")
  case True
  with assms show ?thesis by (simp add: secret_fallback_def raise_def frame_on_refl)
next
  case False
  show ?thesis
  proof (cases "encrypt_secret d (utf8_encode (quantum_secret cfg))")
    case None
    with False assms show ?thesis by (simp add: secret_fallback_def raise_def frame_on_refl)
  next
    case (Some encrypted)
    with False assms have
      "io_bind (redis_setex now k (secret_cache_ttl cfg) (CStr encrypted))
         (\<lambda>_. ret (utf8_encode (quantum_secret cfg))) w = (x, w')"
      by (simp add: secret_fallback_def)
    then show ?thesis
    proof (cases rule: io_bind_cases)
      case (raised e)
      from raised(1) show ?thesis by (rule redis_setex_frame)
    next
      case (returned u w1)
      then show ?thesis using redis_setex_frame by (auto simp: ret_def)
    qed
  qed
qed

lemma get_secret_body_frame:
  assumes "get_secret_body d cfg now originator version w = (x, w')"
  shows "frame_on {secret_key originator version} w w'"
  using assms unfolding get_secret_body_def get_redis_client_def
proof (cases rule: io_bind_cases)
  case (raised e)
  from raised(1) show ?thesis by (rule cache_round_trip_frame)
next
  case (returned u w1)
  from returned(1) have f1: "frame_on {secret_key originator version} w w1"
    by (rule cache_round_trip_frame)
  from returned(2) have "frame_on {secret_key originator version} w1 w'"
  proof (cases rule: io_bind_cases)
    case (raised e)
    from raised(1) show ?thesis by (rule redis_get_frame)
  next
    case (returned cached w2)
    from returned(1) have f2: "frame_on {secret_key originator version} w1 w2"
      by (rule redis_get_frame)
    have "frame_on {secret_key originator version} w2 w'"
      using returned(2) secret_fallback_frame
      by (auto simp: raise_def ret_def frame_on_refl split: option.splits if_splits)
    with f2 show ?thesis by (rule frame_on_trans)
  qed
  with f1 show ?thesis by (rule frame_on_trans)
qed

lemma get_secret_frame:
  "frame_on {secret_key originator version} w (snd (get_secret d cfg now originator version w))"
proof (cases "get_secret_body d cfg now originator version w")
  case (Pair r w1)
  then have "snd (get_secret d cfg now originator version w) = w1"
    by (cases r) (simp_all add: get_secret_def try_except_def raise_def)
  with Pair show ?thesis using get_secret_body_frame by blast
qed

lemma get_secret_raises:
  assumes "fst (get_secret d cfg now originator version w) = Inl e"
  shows "e = AuthError SecretRetrievalFailed"
proof (cases "get_secret_body d cfg now originator version w")
  case (Pair r w1)
  with assms show ?thesis
    by (cases r) (simp_all add: get_secret_def try_except_def raise_def)
qed

lemma secret_fallback_healthy:
  assumes "cache_faults w = []"
  shows "fst (secret_fallback d cfg now k w) =
     (if utf8_encode (quantum_secret cfg) = [] then Inl (AuthError SecretNotConfigured)
      else (case encrypt_secret d (utf8_encode (quantum_secret cfg)) of
          None \<Rightarrow> Inl OtherError
        | Some encrypted \<Rightarrow>
            if secret_cache_ttl cfg \<le> 0 then Inl OtherError
            else Inr (utf8_encode (quantum_secret cfg))))"
  using assms
  by (simp add: secret_fallback_def raise_def io_bind_def redis_setex_def
      cache_round_trip_def ret_def split: option.splits)

lemma get_secret_body_healthy:
  assumes "cache_faults w = []"
  shows "fst (get_secret_body d cfg now originator version w) =
     (case cache_get now w (secret_key originator version) of
        None \<Rightarrow> fst (secret_fallback d cfg now (secret_key originator version) w)
      | Some ve \<Rightarrow>
          if cval_text (fst ve) = []
          then fst (secret_fallback d cfg now (secret_key originator version) w)
          else (case decrypt_secret d (cval_text (fst ve)) of
              None \<Rightarrow> Inl OtherError
            | Some s \<Rightarrow> Inr s))"
  using assms
  by (simp add: get_secret_body_def io_bind_def get_redis_client_def cache_round_trip_def
      redis_get_def raise_def ret_def split: option.splits)

lemma get_secret_fst:
  "fst (get_secret d cfg now originator version w) =
     (case fst (get_secret_body d cfg now originator version w) of
        Inl e \<Rightarrow> Inl (AuthError SecretRetrievalFailed)
      | Inr s \<Rightarrow> Inr s)"
  by (simp add: get_secret_def try_except_def raise_def split: prod.splits sum.splits)

lemma get_secret_healthy_cong:
  assumes "cache_faults w = []" "cache_faults w2 = []"
    and "cache w2 (secret_key originator version) = cache w (secret_key originator version)"
  shows "fst (get_secret d cfg now originator version w2)
       = fst (get_secret d cfg now originator version w)"
proof -
  from assms(3) have
    "cache_get now w2 (secret_key originator version)
       = cache_get now w (secret_key originator version)"
    by (simp add: cache_get_def)
  with assms(1,2) have
    "fst (get_secret_body d cfg now originator version w2)
       = fst (get_secret_body d cfg now originator version w)"
    by (simp add: get_secret_body_healthy secret_fallback_healthy split: option.splits)
  then show ?thesis by (simp add: get_secret_fst)
qed

lemma check_signature_state: "snd (check_signature d r sg ts nonce ver secret w) = w"
  by (simp add: check_signature_def raise_def ret_def split: sum.splits)

section \<open>Cache keys of different families never coincide\<close>

lemma nonce_key_not_rate [simp]:
  "nonce_key o1 n \<noteq> originator_key o2" "nonce_key o1 n \<noteq> ip_key a"
  by (simp_all add: nonce_key_def originator_key_def ip_key_def)

lemma secret_key_not_rate [simp]:
  "secret_key o1 v \<noteq> originator_key o2" "secret_key o1 v \<noteq> ip_key a"
  by (simp_all add: secret_key_def originator_key_def ip_key_def)

lemma secret_key_not_nonce [simp]:
  "secret_key o1 v \<noteq> nonce_key o2 n" "nonce_key o2 n \<noteq> secret_key o1 v"
  by (simp_all add: secret_key_def nonce_key_def)

section \<open>Properties of the verification pipeline\<close>

lemma verify_signature_fst:
  "fst (verify_signature d cfg now r w) =
     (case fst (verify_body d cfg now r w) of
        Inr _ \<Rightarrow> Verified
      | Inl (AuthError f) \<Rightarrow> Unauthorized f
      | Inl OtherError \<Rightarrow> InternalError)"
  by (simp add: verify_signature_def split: prod.splits sum.splits exn.splits)

lemma verify_signature_snd:
  "snd (verify_signature d cfg now r w) = snd (verify_body d cfg now r w)"
  by (simp add: verify_signature_def split: prod.splits sum.splits exn.splits)

lemma verify_body_checks:
  assumes "parse_auth_header (req_auth r) = Inr (sg, ts, nonce, ver)"
    and "payload_originator d (payload_of r) = Inr orig"
  shows "verify_body d cfg now r w = verify_checks d cfg now r sg ts nonce ver orig w"
  using assms by (simp add: verify_body_def)

text \<open>The pipeline, written out on the results of its stages.\<close>

lemma verify_checks_stages:
  fixes d cfg now r sg ts nonce ver orig w
  defines "wa \<equiv> snd (check_rate_limit cfg now orig (client_ip_of r) w)"
  defines "wb \<equiv> snd (validate_nonce cfg now nonce orig wa)"
  defines "wc \<equiv> snd (get_secret d cfg now orig ver wb)"
  shows "verify_checks d cfg now r sg ts nonce ver orig w =
     (if fst (check_rate_limit cfg now orig (client_ip_of r) w) \<noteq> Inr True
        then (Inl (AuthError RateLimitExceeded), wa)
      else if \<not> validate_timestamp cfg now ts
        then (Inl (AuthError TimestampOutOfRange), wa)
      else if fst (validate_nonce cfg now nonce orig wa) \<noteq> Inr True
        then (Inl (AuthError NonceUsedOrInvalid), wb)
      else (case fst (get_secret d cfg now orig ver wb) of
          Inl e \<Rightarrow> (Inl (AuthError SecretRetrievalFailed), wc)
        | Inr secret \<Rightarrow> (fst (check_signature d r sg ts nonce ver secret wc), wc)))"
proof -
  obtain b where b: "fst (check_rate_limit cfg now orig (client_ip_of r) w) = Inr b"
    using check_rate_limit_never_raises by blast
  obtain fresh where f: "fst (validate_nonce cfg now nonce orig wa) = Inr fresh"
    by (cases rule: validate_nonce_cases [of cfg now nonce orig wa]) auto
  have s: "\<And>e. fst (get_secret d cfg now orig ver wb) = Inl e \<Longrightarrow> e = AuthError SecretRetrievalFailed"
    by (rule get_secret_raises)
  have c: "\<And>secret. check_signature d r sg ts nonce ver secret wc
             = (fst (check_signature d r sg ts nonce ver secret wc), wc)"
    by (metis check_signature_state prod.collapse)
  show ?thesis
    unfolding verify_checks_def checks_after_rate_limit_def checks_after_nonce_def io_bind_alt
    using b f s c
    by (auto simp: raise_def wa_def wb_def wc_def split: sum.splits)
qed

lemma rate_limit_keeps_nonce_key:
  "cache_get now2 (snd (check_rate_limit cfg now orig ip w)) (nonce_key o2 n)
     = cache_get now2 w (nonce_key o2 n)"
  by (rule frame_on_cache_get [OF check_rate_limit_frame]) simp

lemma verify_replay:
  assumes "parse_auth_header (req_auth r) = Inr (sg, ts, nonce, ver)"
    and "payload_originator d (payload_of r) = Inr orig"
    and "fst (check_rate_limit cfg now orig (client_ip_of r) w) = Inr True"
    and "validate_timestamp cfg now ts"
    and "cache_get now w (nonce_key orig nonce) \<noteq> None"
  shows "fst (verify_signature d cfg now r w) = Unauthorized NonceUsedOrInvalid"
proof -
  let ?wa = "snd (check_rate_limit cfg now orig (client_ip_of r) w)"
  from assms(5) have "cache_get now ?wa (nonce_key orig nonce) \<noteq> None"
    by (simp add: rate_limit_keeps_nonce_key)
  then have "fst (validate_nonce cfg now nonce orig ?wa) = Inr False"
    by (rule validate_nonce_seen)
  with assms(3,4) show ?thesis
    by (simp add: verify_signature_fst verify_body_checks [OF assms(1,2)] verify_checks_stages)
qed

lemma verify_past_nonce:
  assumes "parse_auth_header (req_auth r) = Inr (sg, ts, nonce, ver)"
    and "payload_originator d (payload_of r) = Inr orig"
    and "fst (verify_signature d cfg now r w) = Verified
         \<or> fst (verify_signature d cfg now r w) = Unauthorized SignatureMismatch"
  shows "fst (check_rate_limit cfg now orig (client_ip_of r) w) = Inr True"
    and "validate_timestamp cfg now ts"
    and "fst (validate_nonce cfg now nonce orig
           (snd (check_rate_limit cfg now orig (client_ip_of r) w))) = Inr True"
    and "snd (verify_signature d cfg now r w) =
           snd (get_secret d cfg now orig ver
             (snd (validate_nonce cfg now nonce orig
               (snd (check_rate_limit cfg now orig (client_ip_of r) w)))))"
  using assms(3)
  by (auto simp: verify_signature_fst verify_signature_snd verify_body_checks [OF assms(1,2)]
      verify_checks_stages split: if_splits sum.splits)

lemma verify_nonce_recorded:
  assumes "parse_auth_header (req_auth r) = Inr (sg, ts, nonce, ver)"
    and "payload_originator d (payload_of r) = Inr orig"
    and "fst (verify_signature d cfg now r w) = Verified
         \<or> fst (verify_signature d cfg now r w) = Unauthorized SignatureMismatch"
  shows "cache (snd (verify_signature d cfg now r w)) (nonce_key orig nonce)
           = Some (CStr ''1'', Some (now + nonce_ttl cfg))"
proof -
  let ?wa = "snd (check_rate_limit cfg now orig (client_ip_of r) w)"
  let ?wb = "snd (validate_nonce cfg now nonce orig ?wa)"
  have "fst (validate_nonce cfg now nonce orig ?wa) = Inr True"
    using assms by (rule verify_past_nonce(3))
  then have "cache ?wb (nonce_key orig nonce) = Some (CStr ''1'', Some (now + nonce_ttl cfg))"
    using validate_nonce_true by blast
  moreover have "cache (snd (get_secret d cfg now orig ver ?wb)) (nonce_key orig nonce)
      = cache ?wb (nonce_key orig nonce)"
    by (rule frame_on_cache [OF get_secret_frame]) simp
  moreover have "snd (verify_signature d cfg now r w) = snd (get_secret d cfg now orig ver ?wb)"
    using assms by (rule verify_past_nonce(4))
  ultimately show ?thesis by simp
qed

lemma verify_first_ok:
  assumes "parse_auth_header (req_auth r) = Inr (sg, ts, nonce, ver)"
    and "payload_originator d (payload_of r) = Inr orig"
    and "cache_faults w = []" "db_faults w = []"
    and "fst (check_rate_limit cfg now orig (client_ip_of r) w) = Inr True"
    and "validate_timestamp cfg now ts"
    and "cache_get now w (nonce_key orig nonce) = None"
    and "(orig, nonce) \<notin> set (nonce_table w)"
    and "0 < nonce_ttl cfg"
    and "fst (get_secret d cfg now orig ver w) = Inr secret"
    and "compute_signature d secret (payload_of r) ts nonce (req_method r) (req_path r) ver
           = Inr sg"
  shows "fst (verify_signature d cfg now r w) = Verified"
proof -
  let ?wa = "snd (check_rate_limit cfg now orig (client_ip_of r) w)"
  let ?wb = "snd (validate_nonce cfg now nonce orig ?wa)"
  have fa: "frame_on {originator_key orig, ip_key (client_ip_of r)} w ?wa"
    by (rule check_rate_limit_frame)
  have ha: "cache_faults ?wa = []" using fa assms(3) by (rule frame_on_healthy)
  have da: "nonce_table ?wa = nonce_table w \<and> db_faults ?wa = db_faults w"
    using fa by (rule frame_on_db)
  have ga: "cache_get now ?wa (nonce_key orig nonce) = None"
    using assms(7) by (simp add: rate_limit_keeps_nonce_key)
  have vb: "validate_nonce cfg now nonce orig ?wa =
     (Inr True, ?wa\<lparr>cache := (cache ?wa)(nonce_key orig nonce \<mapsto> (CStr ''1'', Some (now + nonce_ttl cfg))),
                   nonce_table := (orig, nonce) # nonce_table ?wa\<rparr>)"
    using ha da ga assms(4,8,9) by (intro validate_nonce_fresh) simp_all
  have hb: "cache_faults ?wb = []" using ha by (simp add: vb)
  have "cache ?wb (secret_key orig ver) = cache ?wa (secret_key orig ver)"
    by (simp add: vb)
  also have "\<dots> = cache w (secret_key orig ver)"
    by (rule frame_on_cache [OF fa]) simp
  finally have "fst (get_secret d cfg now orig ver ?wb) = fst (get_secret d cfg now orig ver w)"
    using assms(3) hb by (intro get_secret_healthy_cong) simp_all
  with assms(10) have sb: "fst (get_secret d cfg now orig ver ?wb) = Inr secret" by simp
  have nb: "fst (validate_nonce cfg now nonce orig ?wa) = Inr True" by (simp add: vb)
  have cs: "\<And>wc. fst (check_signature d r sg ts nonce ver secret wc) = Inr ()"
    using assms(11) by (simp add: check_signature_def ret_def)
  show ?thesis
    using assms(5,6) nb sb cs
    by (simp add: verify_signature_fst verify_body_checks [OF assms(1,2)] verify_checks_stages)
qed

lemmas text_eval = split_ws_def is_space_def py_int_def strip_ws_def is_digit_def digit_val_def
  startswith_def str_of_int_def digit_char_def str_of_nat.simps utf8_encode_def utf8_char_def nl_def

lemmas io_eval = Let_def ret_def raise_def io_bind_def try_except_def cache_round_trip_def
  db_round_trip_def live_def cache_get_def get_redis_client_def redis_exists_def redis_get_def
  redis_setex_def redis_incr_def redis_expire_def check_nonce_exists_def record_nonce_def

lemmas auth_eval = parse_auth_header_def cval_text_def secret_key_def secret_fallback_def
  get_secret_body_def get_secret_def validate_timestamp_def nonce_key_def persist_nonce_def
  validate_nonce_body_def validate_nonce_def signing_string_def compute_signature_def
  originator_key_def ip_key_def count_in_window_def check_rate_limit_body_def
  check_rate_limit_def payload_of_def client_ip_of_def payload_originator_def dict_get_def
  check_signature_def checks_after_nonce_def checks_after_rate_limit_def verify_checks_def verify_body_def verify_signature_def

lemmas example_eval = example_body_def example_deps_def example_config_def default_config_def
  example_request_def example_signature_def signed_header_def empty_world_def busy_world_def
  unsigned_header_def four_token_signature_def four_token_header_def limiter_down_world_def
  nonce_down_world_def


section \<open>The claims about the signature handshake\<close>

text \<open>
  C1, as amended. A correctly signed request whose nonce is fresh is verified when the
  cache and the database answer, the rate limiter admits it and its timestamp is inside
  the clock-skew window; the identical request, sent again before the nonce's time to
  live has run out, with the timestamp still inside the window and the rate limiter
  admitting it again, is refused with the nonce error.
\<close>

theorem verify_once_then_replay:
  assumes "parse_auth_header (req_auth r) = Inr (sg, ts, nonce, ver)"
    and "payload_originator d (payload_of r) = Inr orig"
    and "cache_faults w = []" and "db_faults w = []"
    and "cache_get now w (nonce_key orig nonce) = None"
    and "(orig, nonce) \<notin> set (nonce_table w)"
    and "0 < nonce_ttl cfg"
    and "fst (get_secret d cfg now orig ver w) = Inr secret"
    and "compute_signature d secret (payload_of r) ts nonce (req_method r) (req_path r) ver
           = Inr sg"
    and "validate_timestamp cfg now ts" and "validate_timestamp cfg now2 ts"
    and "now2 < now + nonce_ttl cfg"
    and "fst (check_rate_limit cfg now orig (client_ip_of r) w) = Inr True"
    and "fst (check_rate_limit cfg now2 orig (client_ip_of r)
           (snd (verify_signature d cfg now r w))) = Inr True"
  shows "fst (verify_signature d cfg now r w) = Verified \<and>
         fst (verify_signature d cfg now2 r (snd (verify_signature d cfg now r w)))
           = Unauthorized NonceUsedOrInvalid"
proof -
  have first: "fst (verify_signature d cfg now r w) = Verified"
    using assms(1,2,3,4,13,10,5,6,7,8,9) by (rule verify_first_ok)
  then have "cache (snd (verify_signature d cfg now r w)) (nonce_key orig nonce)
      = Some (CStr ''1'', Some (now + nonce_ttl cfg))"
    using assms(1,2) by (intro verify_nonce_recorded) simp_all
  with assms(12) have
    "cache_get now2 (snd (verify_signature d cfg now r w)) (nonce_key orig nonce) \<noteq> None"
    by (simp add: cache_get_def live_def)
  with assms(1,2,14,11) have
    "fst (verify_signature d cfg now2 r (snd (verify_signature d cfg now r w)))
       = Unauthorized NonceUsedOrInvalid"
    by (rule verify_replay)
  with first show ?thesis by simp
qed

theorem verify_once_then_replay_witness:
  "fst (verify_signature example_deps example_config 1000 (example_request signed_header)
          empty_world) = Verified \<and>
   fst (verify_signature example_deps example_config 1001 (example_request signed_header)
          (snd (verify_signature example_deps example_config 1000
                  (example_request signed_header) empty_world)))
     = Unauthorized NonceUsedOrInvalid"
proof (rule verify_once_then_replay
    [where sg = example_signature and ts = 1000 and nonce = "''n1''" and ver = "''v1''"
       and orig = "''rs_a''" and secret = "''k3y''"])
  show "parse_auth_header (req_auth (example_request signed_header))
          = Inr (example_signature, 1000, ''n1'', ''v1'')"
    by (simp add: text_eval auth_eval example_eval)
  show "payload_originator example_deps (payload_of (example_request signed_header))
          = Inr ''rs_a''"
    by (simp add: text_eval auth_eval example_eval)
  show "cache_faults empty_world = []" and "db_faults empty_world = []"
    by (simp_all add: example_eval)
  show "cache_get 1000 empty_world (nonce_key ''rs_a'' ''n1'') = None"
    by (simp add: io_eval example_eval)
  show "(''rs_a'', ''n1'') \<notin> set (nonce_table empty_world)"
    by (simp add: example_eval)
  show "0 < nonce_ttl example_config"
    by (simp add: example_eval)
  show "fst (get_secret example_deps example_config 1000 ''rs_a'' ''v1'' empty_world) = Inr ''k3y''"
    by (simp add: text_eval io_eval auth_eval example_eval)
  show "compute_signature example_deps ''k3y'' (payload_of (example_request signed_header)) 1000
          ''n1'' (req_method (example_request signed_header))
          (req_path (example_request signed_header)) ''v1'' = Inr example_signature"
    by (simp add: text_eval auth_eval example_eval)
  show "validate_timestamp example_config 1000 1000" and "validate_timestamp example_config 1001 1000"
    by (simp_all add: auth_eval example_eval)
  show "(1001::int) < 1000 + nonce_ttl example_config"
    by (simp add: example_eval)
  show "fst (check_rate_limit example_config 1000 ''rs_a''
          (client_ip_of (example_request signed_header)) empty_world) = Inr True"
    by (simp add: text_eval io_eval auth_eval example_eval)
  show "fst (check_rate_limit example_config 1001 ''rs_a''
          (client_ip_of (example_request signed_header))
          (snd (verify_signature example_deps example_config 1000
                  (example_request signed_header) empty_world))) = Inr True"
    by (simp add: text_eval io_eval auth_eval example_eval)
qed

text \<open>
  C1 as stated fails where the rate limiter stands in the way: a caller at 59 requests in
  the window has its correctly signed request verified as the 60th, and the identical
  second call is refused as rate limited, not as a replay.
\<close>

theorem second_call_rate_limited:
  "fst (verify_signature example_deps example_config 1000 (example_request signed_header)
          busy_world) = Verified \<and>
   fst (verify_signature example_deps example_config 1001 (example_request signed_header)
          (snd (verify_signature example_deps example_config 1000
                  (example_request signed_header) busy_world)))
     = Unauthorized RateLimitExceeded \<and>
   Unauthorized RateLimitExceeded \<noteq> Unauthorized NonceUsedOrInvalid"
  by (simp add: text_eval io_eval auth_eval example_eval)

text \<open>
  C2. For every secret, method, path, timestamp, nonce and body text, under version v1 or
  v2 the signature recomputed by \<open>_compute_signature\<close> is the base64 text of the
  HMAC-SHA256, under the secret, of the signing input of the interface contract: the five
  fields joined by newlines for v1; the version tag, the fields and the SHA-256 of the
  body joined by newlines for v2.
\<close>

theorem compute_signature_meets_spec:
  assumes "version = ''v1'' \<or> version = ''v2''"
  shows "compute_signature d secret raw_body timestamp nonce method path version =
     Inr (b64encode d (hmac_sha256 d secret
            (utf8_encode (spec_signing_input d version method path timestamp nonce raw_body))))"
  using assms
  by (auto simp: compute_signature_def signing_string_def spec_signing_input_def)

theorem compute_signature_meets_spec_witness:
  "compute_signature example_deps ''k3y'' ''{}'' 1000 ''n1'' ''GET'' ''/x'' ''v2''
     = Inr ''k3yv2GET/x1000n1h{}''"
  using compute_signature_meets_spec [of "''v2''" example_deps "''k3y''" "''{}''" 1000 "''n1''"
      "''GET''" "''/x''"]
  by (simp add: spec_signing_input_def text_eval example_eval)

text \<open>
  C3. Whatever the request, when the cache fails inside the rate-limit check the check
  answers "under the limit" and verification goes on with the timestamp and nonce
  checks, from the state the failed check left; when the cache fails inside the nonce
  check, verification refuses the request with the nonce error.
\<close>

theorem limiter_fails_open_nonce_fails_closed:
  assumes "parse_auth_header (req_auth r) = Inr (sg, ts, nonce, ver)"
    and "payload_originator d (payload_of r) = Inr orig"
  shows
    "(fst (check_rate_limit_body cfg now orig (client_ip_of r) w) = Inl e \<longrightarrow>
        fst (check_rate_limit cfg now orig (client_ip_of r) w) = Inr True \<and>
        verify_body d cfg now r w =
          checks_after_rate_limit d cfg now r sg ts nonce ver orig
            (snd (check_rate_limit cfg now orig (client_ip_of r) w))) \<and>
     (fst (check_rate_limit cfg now orig (client_ip_of r) w) = Inr True \<and>
      validate_timestamp cfg now ts \<and>
      fst (validate_nonce_body cfg now nonce orig
             (snd (check_rate_limit cfg now orig (client_ip_of r) w))) = Inl e' \<longrightarrow>
        fst (verify_signature d cfg now r w) = Unauthorized NonceUsedOrInvalid)"
proof (intro conjI impI)
  assume raised: "fst (check_rate_limit_body cfg now orig (client_ip_of r) w) = Inl e"
  then show opn: "fst (check_rate_limit cfg now orig (client_ip_of r) w) = Inr True"
    by (cases rule: check_rate_limit_cases [of cfg now orig "client_ip_of r" w]) simp_all
  then show "verify_body d cfg now r w =
      checks_after_rate_limit d cfg now r sg ts nonce ver orig
        (snd (check_rate_limit cfg now orig (client_ip_of r) w))"
    by (simp add: verify_body_checks [OF assms] verify_checks_def io_bind_alt)
next
  let ?wa = "snd (check_rate_limit cfg now orig (client_ip_of r) w)"
  assume a: "fst (check_rate_limit cfg now orig (client_ip_of r) w) = Inr True \<and>
      validate_timestamp cfg now ts \<and>
      fst (validate_nonce_body cfg now nonce orig ?wa) = Inl e'"
  then have "fst (validate_nonce cfg now nonce orig ?wa) = Inr False"
    by (cases rule: validate_nonce_cases [of cfg now nonce orig ?wa]) simp_all
  with a show "fst (verify_signature d cfg now r w) = Unauthorized NonceUsedOrInvalid"
    by (simp add: verify_signature_fst verify_body_checks [OF assms] verify_checks_stages)
qed

theorem limiter_fails_open_nonce_fails_closed_witness:
  "fst (check_rate_limit example_config 1000 ''rs_a'' ''10.0.0.7'' limiter_down_world) = Inr True \<and>
   fst (verify_signature example_deps example_config 1000 (example_request signed_header)
          limiter_down_world) = Verified \<and>
   fst (verify_signature example_deps example_config 1000 (example_request signed_header)
          nonce_down_world) = Unauthorized NonceUsedOrInvalid"
proof -
  have p: "parse_auth_header (req_auth (example_request signed_header))
          = Inr (example_signature, 1000, ''n1'', ''v1'')"
    by (simp add: text_eval auth_eval example_eval)
  have q: "payload_originator example_deps (payload_of (example_request signed_header))
          = Inr ''rs_a''"
    by (simp add: text_eval auth_eval example_eval)
  have ip: "client_ip_of (example_request signed_header) = ''10.0.0.7''"
    by (simp add: auth_eval example_eval)
  have down: "fst (check_rate_limit_body example_config 1000 ''rs_a'' ''10.0.0.7''
                limiter_down_world) = Inl OtherError"
    by (simp add: io_eval auth_eval example_eval)
  have "fst (check_rate_limit example_config 1000 ''rs_a'' ''10.0.0.7'' limiter_down_world)
          = Inr True \<and>
        verify_body example_deps example_config 1000 (example_request signed_header)
          limiter_down_world =
        checks_after_rate_limit example_deps example_config 1000 (example_request signed_header)
          example_signature 1000 ''n1'' ''v1'' ''rs_a''
          (snd (check_rate_limit example_config 1000 ''rs_a'' ''10.0.0.7'' limiter_down_world))"
    using limiter_fails_open_nonce_fails_closed [OF p q, of example_config 1000
        limiter_down_world OtherError OtherError] down
    by (simp add: ip)
  moreover have
    "fst (checks_after_rate_limit example_deps example_config 1000 (example_request signed_header)
          example_signature 1000 ''n1'' ''v1'' ''rs_a''
          (snd (check_rate_limit example_config 1000 ''rs_a'' ''10.0.0.7'' limiter_down_world)))
       = Inr ()"
    by (simp add: text_eval io_eval auth_eval example_eval)
  ultimately have one:
    "fst (check_rate_limit example_config 1000 ''rs_a'' ''10.0.0.7'' limiter_down_world)
          = Inr True \<and>
     fst (verify_signature example_deps example_config 1000 (example_request signed_header)
          limiter_down_world) = Verified"
    by (simp add: verify_signature_fst)
  have "fst (check_rate_limit example_config 1000 ''rs_a'' ''10.0.0.7'' nonce_down_world)
          = Inr True"
    by (simp add: io_eval auth_eval example_eval)
  moreover have "validate_timestamp example_config 1000 1000"
    by (simp add: auth_eval example_eval)
  moreover have "fst (validate_nonce_body example_config 1000 ''n1'' ''rs_a''
      (snd (check_rate_limit example_config 1000 ''rs_a'' ''10.0.0.7'' nonce_down_world)))
        = Inl OtherError"
    by (simp add: io_eval auth_eval example_eval)
  ultimately have
    "fst (verify_signature example_deps example_config 1000 (example_request signed_header)
          nonce_down_world) = Unauthorized NonceUsedOrInvalid"
    using limiter_fails_open_nonce_fails_closed [OF p q, of example_config 1000
        nonce_down_world OtherError OtherError]
    by (simp add: ip)
  with one show ?thesis by simp
qed

lemma payload_originator_errors:
  assumes "payload_originator d p = Inl e"
  shows "e = AuthError InvalidOriginator \<or> e = OtherError"
  using assms
  by (auto simp: payload_originator_def Let_def
      split: option.splits json.splits if_splits)

lemma check_signature_errors:
  assumes "fst (check_signature d r sg ts nonce ver secret w) = Inl e"
  shows "e = AuthError SignatureMismatch \<or> (\<exists>v. e = AuthError (UnsupportedVersion v))"
  using assms
  by (auto simp: check_signature_def compute_signature_def signing_string_def raise_def ret_def
      split: sum.splits if_splits)

lemma verify_not_malformed:
  assumes "parse_auth_header (req_auth r) = Inr (sg, ts, nonce, ver)"
  shows "fst (verify_signature d cfg now r w) \<noteq> Unauthorized MissingHeader \<and>
         fst (verify_signature d cfg now r w) \<noteq> Unauthorized InvalidHeaderFormat"
proof (cases "payload_originator d (payload_of r)")
  case (Inl e)
  then have "e = AuthError InvalidOriginator \<or> e = OtherError"
    by (rule payload_originator_errors)
  with Inl assms show ?thesis
    by (auto simp: verify_signature_fst verify_body_def raise_def)
next
  case (Inr orig)
  show ?thesis
    by (auto simp: verify_signature_fst verify_body_checks [OF assms Inr] verify_checks_stages
        split: sum.splits exn.splits dest: check_signature_errors)
qed

lemma verify_seen_outcomes:
  assumes "parse_auth_header (req_auth r) = Inr (sg, ts, nonce, ver)"
    and "payload_originator d (payload_of r) = Inr orig"
    and "cache_get now w (nonce_key orig nonce) \<noteq> None"
  shows "fst (verify_signature d cfg now r w) =
     (if fst (check_rate_limit cfg now orig (client_ip_of r) w) \<noteq> Inr True
        then Unauthorized RateLimitExceeded
      else if \<not> validate_timestamp cfg now ts then Unauthorized TimestampOutOfRange
      else Unauthorized NonceUsedOrInvalid)"
proof -
  let ?wa = "snd (check_rate_limit cfg now orig (client_ip_of r) w)"
  from assms(3) have "cache_get now ?wa (nonce_key orig nonce) \<noteq> None"
    by (simp add: rate_limit_keeps_nonce_key)
  then have "fst (validate_nonce cfg now nonce orig ?wa) = Inr False"
    by (rule validate_nonce_seen)
  then show ?thesis
    by (simp add: verify_signature_fst verify_body_checks [OF assms(1,2)] verify_checks_stages)
qed

text \<open>
  C9. A request that gets as far as the signature comparison and fails it has passed the
  timestamp and nonce checks and has had its nonce recorded in the cache for the nonce's
  time to live. Sending the request again before then, under any signature (the right
  one included), never succeeds and never fails on the signature: it is refused with the
  nonce error as soon as the rate limiter admits it and its timestamp is inside the
  window.
\<close>

theorem signature_failure_consumes_nonce:
  assumes "parse_auth_header (req_auth r) = Inr (sg, ts, nonce, ver)"
    and "payload_originator d (payload_of r) = Inr orig"
    and "fst (verify_signature d cfg now r w) = Unauthorized SignatureMismatch"
    and "parse_auth_header (Some hdr2) = Inr (sg2, ts, nonce, ver)"
    and "now2 < now + nonce_ttl cfg"
  shows "validate_timestamp cfg now ts \<and>
         fst (validate_nonce cfg now nonce orig
                (snd (check_rate_limit cfg now orig (client_ip_of r) w))) = Inr True \<and>
         cache (snd (verify_signature d cfg now r w)) (nonce_key orig nonce)
           = Some (CStr ''1'', Some (now + nonce_ttl cfg)) \<and>
         fst (verify_signature d cfg now2 (r\<lparr>req_auth := Some hdr2\<rparr>)
                (snd (verify_signature d cfg now r w))) \<noteq> Verified \<and>
         fst (verify_signature d cfg now2 (r\<lparr>req_auth := Some hdr2\<rparr>)
                (snd (verify_signature d cfg now r w))) \<noteq> Unauthorized SignatureMismatch \<and>
         (fst (check_rate_limit cfg now2 orig (client_ip_of r)
                (snd (verify_signature d cfg now r w))) = Inr True \<and>
          validate_timestamp cfg now2 ts \<longrightarrow>
            fst (verify_signature d cfg now2 (r\<lparr>req_auth := Some hdr2\<rparr>)
                   (snd (verify_signature d cfg now r w))) = Unauthorized NonceUsedOrInvalid)"
proof -
  let ?w1 = "snd (verify_signature d cfg now r w)"
  let ?r2 = "r\<lparr>req_auth := Some hdr2\<rparr>"
  have res: "fst (verify_signature d cfg now r w) = Verified
         \<or> fst (verify_signature d cfg now r w) = Unauthorized SignatureMismatch"
    using assms(3) by simp
  have passed: "validate_timestamp cfg now ts"
    "fst (validate_nonce cfg now nonce orig
           (snd (check_rate_limit cfg now orig (client_ip_of r) w))) = Inr True"
    using assms(1,2) res by (rule verify_past_nonce(2), rule verify_past_nonce(3))
  have rec: "cache ?w1 (nonce_key orig nonce) = Some (CStr ''1'', Some (now + nonce_ttl cfg))"
    using assms(1,2) res by (rule verify_nonce_recorded)
  with assms(5) have seen: "cache_get now2 ?w1 (nonce_key orig nonce) \<noteq> None"
    by (simp add: cache_get_def live_def)
  have p2: "parse_auth_header (req_auth ?r2) = Inr (sg2, ts, nonce, ver)"
    using assms(4) by simp
  have "payload_of ?r2 = payload_of r" by (simp add: payload_of_def)
  then have o2: "payload_originator d (payload_of ?r2) = Inr orig"
    using assms(2) by simp
  have ip: "client_ip_of ?r2 = client_ip_of r" by (simp add: client_ip_of_def)
  have "fst (verify_signature d cfg now2 ?r2 ?w1) =
     (if fst (check_rate_limit cfg now2 orig (client_ip_of r) ?w1) \<noteq> Inr True
        then Unauthorized RateLimitExceeded
      else if \<not> validate_timestamp cfg now2 ts then Unauthorized TimestampOutOfRange
      else Unauthorized NonceUsedOrInvalid)"
    using verify_seen_outcomes [OF p2 o2 seen] by (simp add: ip)
  with passed rec show ?thesis by simp
qed

theorem signature_failure_consumes_nonce_witness:
  "fst (verify_signature example_deps example_config 1000 (example_request unsigned_header)
          empty_world) = Unauthorized SignatureMismatch \<and>
   fst (verify_signature example_deps example_config 1001 (example_request signed_header)
          (snd (verify_signature example_deps example_config 1000
                  (example_request unsigned_header) empty_world)))
     = Unauthorized NonceUsedOrInvalid \<and>
   fst (verify_signature example_deps example_config 1000 (example_request signed_header)
          empty_world) = Verified"
proof -
  let ?r = "example_request unsigned_header"
  have p: "parse_auth_header (req_auth ?r) = Inr (''AAAA'', 1000, ''n1'', ''v1'')"
    by (simp add: text_eval auth_eval example_eval)
  have q: "payload_originator example_deps (payload_of ?r) = Inr ''rs_a''"
    by (simp add: text_eval auth_eval example_eval)
  have bad: "fst (verify_signature example_deps example_config 1000 ?r empty_world)
      = Unauthorized SignatureMismatch"
    by (simp add: text_eval io_eval auth_eval example_eval)
  have p2: "parse_auth_header (Some signed_header) = Inr (example_signature, 1000, ''n1'', ''v1'')"
    by (simp add: text_eval auth_eval example_eval)
  have t: "(1001::int) < 1000 + nonce_ttl example_config"
    by (simp add: example_eval)
  have v: "validate_timestamp example_config 1001 1000"
    by (simp add: auth_eval example_eval)
  have l: "fst (check_rate_limit example_config 1001 ''rs_a'' (client_ip_of ?r)
      (snd (verify_signature example_deps example_config 1000 ?r empty_world))) = Inr True"
    by (simp add: text_eval io_eval auth_eval example_eval)
  have same: "?r\<lparr>req_auth := Some signed_header\<rparr> = example_request signed_header"
    by (simp add: example_request_def)
  have good: "fst (verify_signature example_deps example_config 1000
      (example_request signed_header) empty_world) = Verified"
    by (simp add: text_eval io_eval auth_eval example_eval)
  show ?thesis
    using signature_failure_consumes_nonce [OF p q bad p2 t] l v bad good
    by (simp add: same)
qed

text \<open>
  C10. A header of exactly four whitespace-separated tokens (the word Quantum, a
  supported version, a signature and an integer timestamp) parses, with the empty string
  as nonce; verification of a request under such a header never fails for a missing or
  malformed header.
\<close>

theorem four_token_header_accepted:
  assumes "req_auth r = Some hdr"
    and "split_ws hdr = [''Quantum'', ver, sg, ts_tok]"
    and "ver = ''v1'' \<or> ver = ''v2''"
    and "py_int ts_tok = Some ts"
  shows "parse_auth_header (req_auth r) = Inr (sg, ts, [], ver) \<and>
         fst (verify_signature d cfg now r w) \<noteq> Unauthorized MissingHeader \<and>
         fst (verify_signature d cfg now r w) \<noteq> Unauthorized InvalidHeaderFormat"
proof -
  from assms(2) have "hdr \<noteq> []" by (auto simp: split_ws_def)
  with assms have p: "parse_auth_header (req_auth r) = Inr (sg, ts, [], ver)"
    by (auto simp: parse_auth_header_def)
  with verify_not_malformed [OF p] show ?thesis by simp
qed

theorem four_token_header_accepted_witness:
  "parse_auth_header (Some four_token_header) = Inr (four_token_signature, 1000, [], ''v1'') \<and>
   fst (verify_signature example_deps example_config 1000 (example_request four_token_header)
          empty_world) = Verified"
proof -
  have a: "req_auth (example_request four_token_header) = Some four_token_header"
    by (simp add: example_request_def)
  have b: "split_ws four_token_header = [''Quantum'', ''v1'', four_token_signature, ''1000'']"
    by (simp add: text_eval example_eval)
  have c: "py_int ''1000'' = Some 1000"
    by (simp add: text_eval)
  have "fst (verify_signature example_deps example_config 1000
      (example_request four_token_header) empty_world) = Verified"
    by (simp add: text_eval io_eval auth_eval example_eval)
  with four_token_header_accepted [OF a b _ c, of example_deps example_config 1000 empty_world]
  show ?thesis by (simp add: a)
qed

section \<open>The claim about timeouts\<close>




lemma teardown_removes:
  assumes "\<not> delete_fails dk"
  shows "containers (teardown cid dk) cid = None"
  using assms
  by (auto simp: teardown_def container_kill_def container_delete_def
      split: option.splits cstate.splits)






section \<open>The claim about oversize uploads\<close>

lemma stream_size_simps [simp]:
  "stream_size [] = 0"
  "stream_size (c # cs) = int (length c) + stream_size cs"
  "stream_size (xs @ ys) = stream_size xs + stream_size ys"
  by (simp_all add: stream_size_def)








lemmas artifact_eval = path_join_def id_char_def sanitize_id_def get_file_path_def
  get_temp_path_def cleanup_upload_def save_failed_def save_stream_def storage_delete_def
  load_stream_def ledger_get_def ledger_delete_def get_expired_artifacts_def
  get_artifact_metadata_def check_access_def download_artifact_def delete_artifact_def
  cleanup_expired_artifacts_def manager_limit_def upload_temp_path_def cleanup_artifact_def
  remove_temp_def upload_artifact_def stream_size_def small_storage_def empty_store_def
  empty_manager_def


section \<open>The claims about access to artifacts\<close>

lemmas artifact_example_eval = owner_a_def stranger_b_def example_md_def stocked_manager_def
  access_list_def





text \<open>
  C7 fails on the code: the sweep hands the expired example artifact to the delete path
  under the identity "system", which is neither its originator nor on its write list, so
  the access check refuses the deletion and the artifact stays, bytes and ledger row.
\<close>

theorem expired_artifact_survives_cleanup:
  "get_expired_artifacts 1000 stocked_manager = [''a1''] \<and>
   fst (delete_artifact ''a1'' ''system'' stocked_manager) = False \<and>
   ledger_get (cleanup_expired_artifacts 1000 stocked_manager) ''a1'' = Some example_md \<and>
   files (storage (cleanup_expired_artifacts 1000 stocked_manager))
     (get_file_path small_storage ''a1'') = Some ''abc''"
  by (simp add: artifact_eval artifact_example_eval)

section \<open>Properties of the load gate\<close>

lemma callers_move [simp]:
  "callers (move i p s) = (callers s)[i := p]"
  "schema_cache (move i p s) = schema_cache s" "gate_open (move i p s) = gate_open s"
  "gate_was_set (move i p s) = gate_was_set s" "results (move i p s) = results s"
  "exceptions (move i p s) = exceptions s" "file_reads (move i p s) = file_reads s"
  "loads_started (move i p s) = loads_started s"
  by (simp_all add: move_def)

lemma cold_phase_cold: "cold_phase (cold n)"
  by (simp add: cold_phase_def cold_def)

lemma cold_step:
  assumes "cold_phase s" "i < length (callers s)"
  shows "cold_phase (advance env i s) \<or> in_flight env i (advance env i s)"
proof -
  from assms have "callers s ! i = Start \<or> callers s ! i = AtGate"
    by (simp add: cold_phase_def)
  then show ?thesis
  proof
    assume "callers s ! i = Start"
    with assms have "cold_phase (advance env i s)"
      by (simp add: advance_def cold_phase_def nth_list_update)
    then show ?thesis ..
  next
    assume "callers s ! i = AtGate"
    with assms have "in_flight env i (advance env i s)"
      by (auto simp: advance_def wait_for_load_def cold_phase_def in_flight_def nth_list_update)
    then show ?thesis ..
  qed
qed


lemma in_flight_other:
  assumes "in_flight env k s" "i < length (callers s)" "i \<noteq> k"
  shows "in_flight env k (advance env i s)"
proof -
  from assms have p: "callers s ! i = Start \<or> callers s ! i = AtGate \<or> callers s ! i = Waiting"
    by (simp add: in_flight_def)
  from assms(1) have f: "schema_cache s = None" "gate_open s" "\<not> gate_was_set s"
    "results s = None" "exceptions s = None"
    by (simp_all add: in_flight_def)
  from p show ?thesis
  proof (elim disjE)
    assume "callers s ! i = Start"
    with assms f show ?thesis
      by (auto simp: advance_def in_flight_def nth_list_update)
  next
    assume "callers s ! i = AtGate"
    with assms f show ?thesis
      by (auto simp: advance_def wait_for_load_def in_flight_def nth_list_update)
  next
    assume "callers s ! i = Waiting"
    with assms f show ?thesis
      by (simp add: advance_def wake_def)
  qed
qed

lemma settled_after_result:
  assumes "in_flight env k s" "load_outcome env = Returned sc" "is_dict env sc"
    and "file_reads s = (if shared_cache env = None then 1 else 0)"
  shows "settled env (move k (Returned sc)
           (s\<lparr>schema_cache := Some sc, results := Some sc, gate_open := False,
               gate_was_set := (gate_was_set s \<or> gate_open s)\<rparr>))"
  using assms
  by (auto simp: settled_def in_flight_def nth_list_update)

lemma settled_after_exception:
  assumes "in_flight env k s" "load_outcome env = Raised e"
    and "c = None \<or> (\<exists>sc. c = Some sc \<and> \<not> is_dict env sc)"
    and "reads = (if shared_cache env = None then 1 else 0)"
  shows "settled env (set_exception k e (s\<lparr>schema_cache := c, file_reads := reads\<rparr>))"
  using assms
  by (auto simp: settled_def in_flight_def set_exception_def nth_list_update)

lemma in_flight_loader:
  assumes "in_flight env k s"
  shows "in_flight env k (advance env k s) \<or> settled env (advance env k s)"
proof -
  from assms have k: "k < length (callers s)" and
    ok: "loader_ok env (file_reads s) (callers s ! k)"
    by (simp_all add: in_flight_def)
  show ?thesis
  proof (cases "callers s ! k")
    case LoadShared
    with ok have r: "file_reads s = 0" by simp
    show ?thesis
    proof (cases "shared_cache env")
      case None
      with LoadShared k r assms have "in_flight env k (advance env k s)"
        by (auto simp: advance_def in_flight_def nth_list_update)
      then show ?thesis ..
    next
      case (Some sc)
      show ?thesis
      proof (cases "is_dict env sc")
        case True
        with Some have "load_outcome env = Returned sc" by (simp add: load_outcome_def)
        with assms True Some r have "settled env (publish env k sc s)"
          unfolding publish_def by (simp add: settled_after_result)
        with LoadShared k Some show ?thesis by (simp add: advance_def)
      next
        case False
        with Some have "load_outcome env = Raised (attribute_error env)"
          by (simp add: load_outcome_def)
        with assms Some r have
          "settled env (set_exception k (attribute_error env)
             (s\<lparr>schema_cache := Some sc, file_reads := file_reads s\<rparr>))"
          using False by (intro settled_after_exception) auto
        with False have "settled env (publish env k sc s)"
          by (simp add: publish_def)
        with LoadShared k Some show ?thesis by (simp add: advance_def)
      qed
    qed
  next
    case LoadFile
    with ok have r: "shared_cache env = None" "file_reads s = 0" by simp_all
    show ?thesis
    proof (cases "schema_file env")
      case (Inl e)
      with r have "load_outcome env = Raised e" by (simp add: load_outcome_def)
      with assms r have
        "settled env (set_exception k e (s\<lparr>schema_cache := None, file_reads := Suc (file_reads s)\<rparr>))"
        by (intro settled_after_exception) auto
      moreover from assms have "schema_cache s = None" by (simp add: in_flight_def)
      then have "s\<lparr>schema_cache := None, file_reads := Suc (file_reads s)\<rparr>
          = s\<lparr>file_reads := Suc (file_reads s)\<rparr>" by simp
      ultimately show ?thesis using LoadFile k Inl by (simp add: advance_def)
    next
      case (Inr sc)
      with LoadFile k r assms have "in_flight env k (advance env k s)"
        by (auto simp: advance_def in_flight_def nth_list_update)
      then show ?thesis ..
    qed
  next
    case (PushShared sc)
    with ok have r: "shared_cache env = None" "schema_file env = Inr sc" "file_reads s = 1"
      by simp_all
    show ?thesis
    proof (cases "is_dict env sc")
      case True
      with r have "load_outcome env = Returned sc" by (simp add: load_outcome_def)
      with assms True r have "settled env (publish env k sc s)"
        unfolding publish_def by (simp add: settled_after_result)
      with PushShared k show ?thesis by (simp add: advance_def)
    next
      case False
      with r have "load_outcome env = Raised (attribute_error env)"
        by (simp add: load_outcome_def)
      with assms r have
        "settled env (set_exception k (attribute_error env)
           (s\<lparr>schema_cache := Some sc, file_reads := file_reads s\<rparr>))"
        using False by (intro settled_after_exception) auto
      with False have "settled env (publish env k sc s)"
        by (simp add: publish_def)
      with PushShared k show ?thesis by (simp add: advance_def)
    qed
  qed (use ok in simp_all)
qed


lemma settled_place_move [simp]: "settled_place (move i p s) q = settled_place s q"
  by (cases q) simp_all

lemma nth_update_cases:
  "j < length xs \<Longrightarrow> xs[i := p] ! j = (if i = j then p else xs ! j)"
  by (simp add: nth_list_update)

lemma settled_move:
  assumes "settled env s" "settled_place s p"
  shows "settled env (move i p s)"
  using assms by (auto simp: settled_def nth_update_cases split: option.splits)

lemma settled_step:
  assumes "settled env s"
  shows "settled env (advance env i s)"
proof (cases "i < length (callers s)")
  case False
  with assms show ?thesis by (simp add: advance_def)
next
  case True
  with assms have sp: "settled_place s (callers s ! i)" by (simp add: settled_def)
  from assms have set: "gate_was_set s" "\<not> gate_open s" by (simp_all add: settled_def)
  from assms have out: "results s \<noteq> None \<or> exceptions s \<noteq> None"
    by (auto simp: settled_def split: option.splits)
  show ?thesis
  proof (cases "callers s ! i")
    case Start
    with True assms show ?thesis
      by (auto simp: advance_def intro: settled_move split: option.splits)
  next
    case (CheckFresh c)
    with sp have c: "schema_cache s = Some c" by simp
    have "is_dict env c \<Longrightarrow> results s = Some c"
      using assms c by (auto simp: settled_def split: option.splits)
    with True assms CheckFresh show ?thesis
      by (auto simp: advance_def intro: settled_move)
  next
    case AtGate
    with True assms out show ?thesis
      by (auto simp: advance_def wait_for_load_def intro: settled_move split: option.splits)
  next
    case Waiting
    with True assms out set show ?thesis
      by (auto simp: advance_def wake_def intro: settled_move split: option.splits)
  qed (use True assms sp in \<open>simp_all add: advance_def\<close>)
qed

lemma gate_inv_advance:
  assumes "gate_inv env s"
  shows "gate_inv env (advance env i s)"
proof (cases "i < length (callers s)")
  case False
  with assms show ?thesis by (simp add: advance_def)
next
  case True
  from assms consider "cold_phase s" | k where "in_flight env k s" | "settled env s"
    by (auto simp: gate_inv_def)
  then show ?thesis
  proof cases
    case 1
    with True cold_step [of s i env] show ?thesis by (auto simp: gate_inv_def)
  next
    case (2 k)
    show ?thesis
    proof (cases "i = k")
      case True
      with 2 in_flight_loader [of env k s] show ?thesis by (auto simp: gate_inv_def)
    next
      case False
      with 2 True in_flight_other [of env k s i] show ?thesis by (auto simp: gate_inv_def)
    qed
  next
    case 3
    then show ?thesis by (auto simp: gate_inv_def dest: settled_step)
  qed
qed

lemma gate_inv_run:
  assumes "gate_inv env s"
  shows "gate_inv env (run env schedule s)"
  using assms
  by (induction schedule arbitrary: s) (simp_all add: run_def gate_inv_advance)

lemma length_advance [simp]: "length (callers (advance env i s)) = length (callers s)"
  by (simp add: advance_def wait_for_load_def wake_def publish_def set_exception_def
      split: place.splits option.splits sum.splits)

lemma length_run [simp]: "length (callers (run env schedule s)) = length (callers s)"
  by (induction schedule arbitrary: s) (simp_all add: run_def)

lemma load_outcome_finished: "finished (load_outcome env)"
  by (simp add: load_outcome_def split: option.splits sum.splits)

lemma gate_inv_bounds:
  assumes "gate_inv env s"
  shows "file_reads s \<le> 1 \<and> loads_started s \<le> 1"
proof -
  from assms consider "cold_phase s" | k where "in_flight env k s" | "settled env s"
    by (auto simp: gate_inv_def)
  then show ?thesis
  proof cases
    case 1
    then show ?thesis by (simp add: cold_phase_def)
  next
    case (2 k)
    then have "loader_ok env (file_reads s) (callers s ! k)" "loads_started s = 1"
      by (simp_all add: in_flight_def)
    then show ?thesis by (cases "callers s ! k") simp_all
  next
    case 3
    then show ?thesis by (simp add: settled_def)
  qed
qed

lemma gate_inv_finished:
  assumes "gate_inv env s" "i < length (callers s)" "finished (callers s ! i)"
  shows "settled env s \<and> callers s ! i = load_outcome env"
proof -
  from assms(1) consider "cold_phase s" | k where "in_flight env k s" | "settled env s"
    by (auto simp: gate_inv_def)
  then show ?thesis
  proof cases
    case 1
    with assms(2) have "callers s ! i = Start \<or> callers s ! i = AtGate"
      by (simp add: cold_phase_def)
    with assms(3) show ?thesis by auto
  next
    case (2 k)
    show ?thesis
    proof (cases "i = k")
      case True
      with 2 have "loader_ok env (file_reads s) (callers s ! i)" by (simp add: in_flight_def)
      with assms(3) show ?thesis by (cases "callers s ! i") simp_all
    next
      case False
      with 2 assms(2) have
        "callers s ! i = Start \<or> callers s ! i = AtGate \<or> callers s ! i = Waiting"
        by (simp add: in_flight_def)
      with assms(3) show ?thesis by auto
    qed
  next
    case 3
    with assms(2) have "settled_place s (callers s ! i)" by (simp add: settled_def)
    with 3 assms(3) have "callers s ! i = load_outcome env"
      by (cases "callers s ! i") (auto simp: settled_def split: option.splits)
    with 3 show ?thesis by simp
  qed
qed

lemma gate_inv_progress:
  assumes "gate_inv env s" "i < length (callers s)" "\<not> finished (callers s ! i)"
  shows "\<exists>j < length (callers s). advance env j s \<noteq> s"
proof -
  have diff: "\<And>j t. j < length (callers s) \<Longrightarrow> callers t ! j \<noteq> callers s ! j \<Longrightarrow> t \<noteq> s"
    by auto
  from assms(1) consider "cold_phase s" | k where "in_flight env k s" | "settled env s"
    by (auto simp: gate_inv_def)
  then show ?thesis
  proof cases
    case 1
    with assms(2) have p: "callers s ! i = Start \<or> callers s ! i = AtGate"
      and f: "schema_cache s = None" "results s = None" "exceptions s = None" "\<not> gate_open s"
      by (simp_all add: cold_phase_def)
    have "callers (advance env i s) ! i \<noteq> callers s ! i"
      using p f assms(2) by (auto simp: advance_def wait_for_load_def)
    with assms(2) diff show ?thesis by blast
  next
    case (2 k)
    then have k: "k < length (callers s)" and
      ok: "loader_ok env (file_reads s) (callers s ! k)"
      by (simp_all add: in_flight_def)
    have "callers (advance env k s) ! k \<noteq> callers s ! k"
      using k ok
      by (cases "callers s ! k")
         (auto simp: advance_def publish_def set_exception_def split: option.splits sum.splits)
    with k diff show ?thesis by blast
  next
    case 3
    with assms(2) have sp: "settled_place s (callers s ! i)"
      and set: "gate_was_set s"
      by (simp_all add: settled_def)
    have "callers (advance env i s) ! i \<noteq> callers s ! i"
      using sp set assms(2,3)
      by (cases "callers s ! i")
         (auto simp: advance_def wait_for_load_def wake_def split: option.splits)
    with assms(2) diff show ?thesis by blast
  qed
qed

lemma advance_effect:
  assumes "i < length (callers s)"
  shows "advance env i s = s \<or>
         (callers (advance env i s) = (callers s)[i := callers (advance env i s) ! i] \<and>
          steps_left (callers (advance env i s) ! i) < steps_left (callers s ! i))"
  using assms
  by (cases "callers s ! i")
     (auto simp: advance_def wait_for_load_def wake_def publish_def set_exception_def
       split: option.splits sum.splits)

lemma steps_total_update:
  assumes "i < length xs" "steps_left q < steps_left (xs ! i)"
  shows "sum_list (map steps_left (xs[i := q])) < sum_list (map steps_left xs)"
proof -
  have "steps_left (xs ! i) \<le> sum_list (map steps_left xs)"
    using assms(1) by (intro member_le_sum_list) auto
  moreover have "sum_list (map steps_left (xs[i := q]))
      = sum_list (map steps_left xs) + steps_left q - steps_left (xs ! i)"
    using assms(1) by (simp add: map_update sum_list_update)
  ultimately show ?thesis using assms(2) by simp
qed

lemma steps_decrease:
  "steps_total (advance env i s) \<le> steps_total s \<and>
   (advance env i s \<noteq> s \<longrightarrow> steps_total (advance env i s) < steps_total s)"
proof (cases "i < length (callers s)")
  case False
  then show ?thesis by (simp add: advance_def)
next
  case True
  from advance_effect [OF True, of env] show ?thesis
  proof
    assume "advance env i s = s"
    then show ?thesis by simp
  next
    assume a: "callers (advance env i s) = (callers s)[i := callers (advance env i s) ! i] \<and>
          steps_left (callers (advance env i s) ! i) < steps_left (callers s ! i)"
    then have "steps_total (advance env i s)
        = sum_list (map steps_left ((callers s)[i := callers (advance env i s) ! i]))"
      by (simp add: steps_total_def)
    also have "\<dots> < steps_total s"
      unfolding steps_total_def using True a by (intro steps_total_update) simp_all
    finally show ?thesis by simp
  qed
qed

text \<open>
  C8. Whatever the order in which the event loop runs the callers of a cold key: the
  schema file is read at most once and at most one caller ever starts a load; a caller
  that has come back has the outcome of that one load, the same schema or the same error
  for all, and by then exactly one load was started and, the shared cache not holding
  the schema, the file was read exactly once. No caller is stuck: while one has not come
  back some caller can take a step, and every step that changes the state lowers a bound
  on the steps left.
\<close>

theorem load_gate_loads_once:
  "let s = run env schedule (cold n) in
     file_reads s \<le> 1 \<and> loads_started s \<le> 1 \<and>
     (\<forall>i < n. finished (callers s ! i) \<longrightarrow>
        callers s ! i = load_outcome env \<and> loads_started s = 1 \<and>
        (shared_cache env = None \<longrightarrow> file_reads s = 1)) \<and>
     ((\<exists>i < n. \<not> finished (callers s ! i)) \<longrightarrow> (\<exists>j < n. advance env j s \<noteq> s)) \<and>
     steps_total (advance env j s) \<le> steps_total s \<and>
     (advance env j s \<noteq> s \<longrightarrow> steps_total (advance env j s) < steps_total s)"
proof -
  let ?s = "run env schedule (cold n)"
  have inv: "gate_inv env ?s"
    by (intro gate_inv_run) (simp add: gate_inv_def cold_phase_cold)
  have len: "length (callers ?s) = n" by (simp add: cold_def)
  have bounds: "file_reads ?s \<le> 1 \<and> loads_started ?s \<le> 1"
    using inv by (rule gate_inv_bounds)
  have fin: "callers ?s ! i = load_outcome env \<and> loads_started ?s = 1 \<and>
        (shared_cache env = None \<longrightarrow> file_reads ?s = 1)"
    if "i < n" "finished (callers ?s ! i)" for i
  proof -
    from that len have "settled env ?s \<and> callers ?s ! i = load_outcome env"
      by (intro gate_inv_finished [OF inv]) simp_all
    then show ?thesis by (simp add: settled_def)
  qed
  have prog: "\<exists>j < n. advance env j ?s \<noteq> ?s" if "\<exists>i < n. \<not> finished (callers ?s ! i)"
  proof -
    from that obtain i where "i < n" "\<not> finished (callers ?s ! i)" by blast
    with len gate_inv_progress [OF inv, of i] show ?thesis by simp
  qed
  show ?thesis
    unfolding Let_def using bounds fin prog steps_decrease [of env j ?s] by blast
qed

theorem load_gate_loads_once_witness:
  "callers (run file_env three_callers (cold 3))
     = [Returned ''schema'', Returned ''schema'', Returned ''schema''] \<and>
   load_outcome file_env = Returned ''schema'' \<and>
   file_reads (run file_env three_callers (cold 3)) = 1 \<and>
   loads_started (run file_env three_callers (cold 3)) = 1"
proof -
  have c: "callers (run file_env three_callers (cold 3))
     = [Returned ''schema'', Returned ''schema'', Returned ''schema'']"
    by code_simp
  have e: "shared_cache file_env = None"
    by (simp add: file_env_def)
  let ?s = "run file_env three_callers (cold 3)"
  from load_gate_loads_once [of file_env three_callers 3 0]
  have "\<forall>i < 3. finished (callers ?s ! i) \<longrightarrow>
        callers ?s ! i = load_outcome file_env \<and> loads_started ?s = 1 \<and>
        (shared_cache file_env = None \<longrightarrow> file_reads ?s = 1)"
    unfolding Let_def by (elim conjE)
  then have "0 < (3::nat) \<longrightarrow> finished (callers ?s ! 0) \<longrightarrow>
        callers ?s ! 0 = load_outcome file_env \<and> loads_started ?s = 1 \<and>
        (shared_cache file_env = None \<longrightarrow> file_reads ?s = 1)"
    by (rule spec)
  with c e show ?thesis by simp
qed

end
